theory Spec2Isabelle
  imports Main "HOL-Library.Word" "HOL-Library.Sublist" "HOL-Library.AList"
begin

section \<open>The gateway HTTP helpers of kuscia: pkg/gateway/utils/http.go\<close>

text \<open>
  Go strings are byte sequences: a \<^typ>\<open>string\<close> here is the list of the bytes.
  Go's \<open>int\<close> is taken at 64 bits, \<open>uint32\<close> is \<^typ>\<open>32 word\<close>.
\<close>

subsection \<open>Go library functions used by ParseURL\<close>

text \<open>\<open>strings.HasPrefix(s, p)\<close>.\<close>

definition HasPrefix :: "string \<Rightarrow> string \<Rightarrow> bool" where
  "HasPrefix s p = (take (length p) s = p)"

text \<open>
  \<open>strings.Split(s, sep)\<close> for a one-byte separator: the pieces between the
  occurrences of the separator, one more piece than there are occurrences.
\<close>

fun Split :: "string \<Rightarrow> char \<Rightarrow> string list" where
  "Split [] sep = [[]]"
| "Split (c # cs) sep =
     (if c = sep then [] # Split cs sep
      else (case Split cs sep of
              [] \<Rightarrow> [[c]]
            | f # fs \<Rightarrow> (c # f) # fs))"

text \<open>
  \<open>strings.SplitN(s, sep, 2)\<close> for a one-byte separator: the text before the first
  occurrence and the unsplit remainder after it, or the string alone when the separator
  does not occur.
\<close>

definition SplitN2 :: "string \<Rightarrow> char \<Rightarrow> string list" where
  "SplitN2 s sep =
     (if sep \<in> set s
      then [takeWhile (\<lambda>c. c \<noteq> sep) s, tl (dropWhile (\<lambda>c. c \<noteq> sep) s)]
      else [s])"

text \<open>
  The errors ParseURL can return: one made by \<open>fmt.Errorf\<close>, kept as its formatted
  text, or the \<open>*strconv.NumError\<close> of \<open>strconv.Atoi\<close> with its fields Func, Num, Err.
\<close>

datatype num_err = ErrSyntax | ErrRange

datatype url_error = Errorf string | NumError string string num_err

text \<open>
  \<open>strconv.Atoi\<close> and what it calls, from the Go standard library, for a 64-bit
  \<open>int\<close>. A decimal digit and its value:
\<close>

definition is_digit :: "char \<Rightarrow> bool" where
  "is_digit c = (c \<in> set ''0123456789'')"

definition digit_val :: "char \<Rightarrow> int option" where
  "digit_val c = (if is_digit c then Some (of_char c - 48) else None)"

text \<open>
  The loop of the fast path of Atoi, taken by strings of 1 to 18 bytes: the digits are
  accumulated, a byte that is not a digit is a syntax error (\<open>None\<close>). Eighteen digits
  cannot overflow.
\<close>

fun parse_digits :: "string \<Rightarrow> int \<Rightarrow> int option" where
  "parse_digits [] n = Some n"
| "parse_digits (c # cs) n =
     (case digit_val c of
        None \<Rightarrow> None
      | Some d \<Rightarrow> parse_digits cs (n * 10 + d))"

text \<open>
  \<open>strconv.ParseUint(s, 10, 0)\<close>. Its loop reads the bytes from the left. At each byte
  it first tests that the byte is a digit (else a syntax error with value 0), then that
  ten times the number read so far still fits (\<open>n >= cutoff\<close>), then that the number with
  the new digit still fits; a failure of either is a range error with the value
  \<open>maxUint64\<close>, returned at once, whatever bytes follow.
\<close>

definition maxUint64 :: int where
  "maxUint64 = 2 ^ 64 - 1"

fun ParseUint_loop :: "string \<Rightarrow> int \<Rightarrow> int \<times> num_err option" where
  "ParseUint_loop [] n = (n, None)"
| "ParseUint_loop (c # cs) n =
     (case digit_val c of
        None \<Rightarrow> (0, Some ErrSyntax)
      | Some d \<Rightarrow>
          if n \<ge> maxUint64 div 10 + 1 then (maxUint64, Some ErrRange)
          else if n * 10 + d > maxUint64 then (maxUint64, Some ErrRange)
          else ParseUint_loop cs (n * 10 + d))"

definition ParseUint :: "string \<Rightarrow> int \<times> num_err option" where
  "ParseUint s = (if s = [] then (0, Some ErrSyntax) else ParseUint_loop s 0)"

text \<open>
  \<open>strconv.ParseInt(s, 10, 0)\<close>: the sign is taken off, the rest goes to ParseUint; its
  syntax error is passed on with value 0, and the number is then tested against the
  range of \<open>int64\<close>.
\<close>

definition ParseInt :: "string \<Rightarrow> int \<times> num_err option" where
  "ParseInt s =
     (if s = [] then (0, Some ErrSyntax)
      else
        (let neg = (hd s = CHR ''-'');
             s1 = (if hd s = CHR ''+'' \<or> hd s = CHR ''-'' then tl s else s)
         in case ParseUint s1 of
              (un, Some ErrSyntax) \<Rightarrow> (0, Some ErrSyntax)
            | (un, _) \<Rightarrow>
                if \<not> neg \<and> un \<ge> 2 ^ 63 then (2 ^ 63 - 1, Some ErrRange)
                else if neg \<and> un > 2 ^ 63 then (- (2 ^ 63), Some ErrRange)
                else (if neg then - un else un, None)))"

text \<open>
  \<open>strconv.Atoi(s)\<close>: the fast path for a string of 1 to 18 bytes, ParseInt for every
  other string. The error is a \<open>*NumError\<close> with \<open>Func\<close> set to \<open>Atoi\<close> and \<open>Num\<close> to
  the whole string.
\<close>

definition Atoi :: "string \<Rightarrow> int \<times> url_error option" where
  "Atoi s =
     (if 0 < length s \<and> length s < 19 then
        (let s1 = (if hd s = CHR ''-'' \<or> hd s = CHR ''+'' then tl s else s)
         in if length s1 < 1 then (0, Some (NumError ''Atoi'' s ErrSyntax))
            else (case parse_digits s1 0 of
                    None \<Rightarrow> (0, Some (NumError ''Atoi'' s ErrSyntax))
                  | Some n \<Rightarrow> (if hd s = CHR ''-'' then - n else n, None)))
      else
        (case ParseInt s of
           (i64, None) \<Rightarrow> (i64, None)
         | (i64, Some e) \<Rightarrow> (i64, Some (NumError ''Atoi'' s e))))"

subsection \<open>ParseURL\<close>

text \<open>
  The five results of the Go function, in its order: protocol, host, port, path, error
  (\<open>None\<close> is \<open>nil\<close>). \<open>uint32(port)\<close> keeps the low 32 bits of the \<open>int\<close>.
\<close>

type_synonym parsed = "string \<times> string \<times> 32 word \<times> string \<times> url_error option"

text \<open>Lines 51 to 71: what follows the scheme prefix.\<close>

definition parse_host_port :: "string \<Rightarrow> string \<Rightarrow> parsed" where
  "parse_host_port protocol hostPort0 =
     (let parts = SplitN2 hostPort0 CHR ''/'';
          hostPort = hd parts;
          path = (if length parts > 1 then ''/'' @ parts ! 1 else []);
          fields = Split hostPort CHR '':'';
          host = hd fields
      in if length fields = 2 then
           (case Atoi (fields ! 1) of
              (port, Some err) \<Rightarrow> (protocol, host, word_of_int port, path, Some err)
            | (port, None) \<Rightarrow> (protocol, host, word_of_int port, path, None))
         else if protocol = ''http'' then (protocol, host, word_of_int 80, path, None)
         else (protocol, host, word_of_int 443, path, None))"

definition ParseURL :: "string \<Rightarrow> parsed" where
  "ParseURL url =
     (if HasPrefix url ''http://'' then parse_host_port ''http'' (drop 7 url)
      else if HasPrefix url ''https://'' then parse_host_port ''https'' (drop 8 url)
      else ([], [], word_of_int 0, [], Some (Errorf (''invalid host: '' @ url))))"

text \<open>
  The reading of a well-formed port, for the statements below: the number a string of
  decimal digits writes.
\<close>

definition decimal :: "string \<Rightarrow> int" where
  "decimal ds = foldl (\<lambda>n c. n * 10 + (of_char c - 48)) 0 ds"

subsection \<open>Errors, formatting, and the data of a request\<close>

text \<open>
  The request helpers only ever ask an error for its text, so an \<open>error\<close> there is the
  string its \<open>Error()\<close> method returns, and \<open>nil\<close> is \<open>None\<close>.
\<close>

type_synonym error = string

text \<open>The verb \<open>%d\<close> of package fmt: the decimal digits, with \<open>-\<close> before a negative number.\<close>

fun nat_digits :: "nat \<Rightarrow> string" where
  "nat_digits n =
     (if n < 10 then [''0123456789'' ! n]
      else nat_digits (n div 10) @ [''0123456789'' ! (n mod 10)])"

definition fmt_d :: "int \<Rightarrow> string" where
  "fmt_d i = (if i < 0 then ''-'' @ nat_digits (nat (- i)) else nat_digits (nat i))"

text \<open>
  \<open>Headers\<close> is a Go map; the list gives its pairs in the order the \<open>range\<close> loop
  happens to visit them.
\<close>

record HTTPParam =
  Method :: string
  Path :: string
  ClusterName :: string
  KusciaSource :: string
  KusciaHost :: string
  Headers :: "(string \<times> string) list"

datatype ErrType =
    NewHTTPRequestError
  | InParameterMarshalToJSONError
  | OutParameterRunMarshalFromJSONError
  | ResponseStatusCodeNotOK
  | DoHTTPError
  | IOError

record Request =
  req_method :: string
  req_url :: string
  req_body :: "string option"
  req_header :: "(string \<times> string) list"

text \<open>
  A response: its status code, and its body given as what \<open>io.ReadAll\<close> returns on it
  (the bytes read, and the read error if there was one).
\<close>

record Response =
  StatusCode :: int
  Body :: "string \<times> error option"

text \<open>
  \<open>http.Client.Do\<close> returns a response and no error, or an error; with an error there is a
  response only when a redirect policy failed.
\<close>

datatype do_result = DoOK Response | DoErr error "Response option"

text \<open>
  The collaborators of the executor. \<open>InternalServer\<close> and \<open>ServiceHandshake\<close> are
  constants of the package declared in another file. The others are Go library calls:
  \<open>json.Marshal\<close> (bytes or an error), \<open>http.NewRequest\<close> (a request or an error; the
  request is nil with every error), the canonical form of a header name,
  \<open>http.Client.Do\<close>, and \<open>json.Unmarshal\<close>, which returns the output value as it
  leaves it together with its error.
\<close>

record ('i, 'o) env =
  InternalServer :: string
  ServiceHandshake :: string
  Marshal :: "'i \<Rightarrow> error + string"
  NewRequest :: "string \<Rightarrow> string \<Rightarrow> string option \<Rightarrow> error + Request"
  CanonicalHeaderKey :: "string \<Rightarrow> string"
  Do :: "Request \<Rightarrow> do_result"
  Unmarshal :: "string \<Rightarrow> 'o \<Rightarrow> 'o \<times> error option"

text \<open>
  The library calls an attempt makes, in order, each with the arguments it is given:
  the value given to \<open>json.Marshal\<close>; the method, address and body given to
  \<open>http.NewRequest\<close>; the request given to \<open>Do\<close>; the bytes given to \<open>json.Unmarshal\<close>.
\<close>

datatype 'i call =
    CallMarshal 'i
  | CallNewRequest string string "string option"
  | CallDo Request
  | CallReadAll
  | CallUnmarshal string
  | CallClose

text \<open>
  How a call ends: it returns, or it panics on a nil pointer: the nil request of line 120,
  the nil response of line 134, the nil error of line 84.
\<close>

datatype ending = Returned | PanicNilRequest | PanicNilResponse | PanicNilError

text \<open>
  What one call of DoHTTPWithHandler does: the library calls made, the invocations of the
  handler, the output location afterwards, the state the handler works on (the variables
  its closure captures), and how the call ended.
\<close>

record ('i, 'o, 's) outcome =
  calls :: "'i call list"
  handled :: "(ErrType \<times> error) list"
  out_after :: 'o
  hstate :: 's
  ending :: ending

definition call :: "'i call \<Rightarrow> ('i, 'o, 's) outcome \<Rightarrow> ('i, 'o, 's) outcome" where
  "call c r = r\<lparr>calls := calls r @ [c]\<rparr>"

text \<open>\<open>handler(et, err)\<close>: the invocation is recorded and the handler runs on its state.\<close>

definition invoke ::
  "(ErrType \<Rightarrow> error \<Rightarrow> 's \<Rightarrow> 's) \<Rightarrow> ErrType \<Rightarrow> error \<Rightarrow> ('i, 'o, 's) outcome \<Rightarrow> ('i, 'o, 's) outcome" where
  "invoke h et err r = r\<lparr>handled := handled r @ [(et, err)], hstate := h et err (hstate r)\<rparr>"

text \<open>\<open>req.Header.Set(key, val)\<close>.\<close>

definition Header_Set :: "('i, 'o) env \<Rightarrow> string \<Rightarrow> string \<Rightarrow> Request \<Rightarrow> Request" where
  "Header_Set env key val req =
     req\<lparr>req_header := AList.update (CanonicalHeaderKey env key) val (req_header req)\<rparr>"

definition MethodGet :: string where
  "MethodGet = ''GET''"

definition StatusOK :: int where
  "StatusOK = 200"

subsection \<open>DoHTTPWithHandler\<close>

text \<open>\<open>if len(body) > 200 { body = body[:200] }\<close>\<close>

definition truncate200 :: "string \<Rightarrow> string" where
  "truncate200 body = (if length body > 200 then take 200 body else body)"

text \<open>Lines 149 to 156: the body is decoded into the output location.\<close>

definition unmarshal_out ::
  "('i, 'o) env \<Rightarrow> (ErrType \<Rightarrow> error \<Rightarrow> 's \<Rightarrow> 's) option \<Rightarrow> string \<Rightarrow>
   ('i, 'o, 's) outcome \<Rightarrow> ('i, 'o, 's) outcome" where
  "unmarshal_out env handler body r =
     (case Unmarshal env body (out_after r) of
        (out', err) \<Rightarrow>
          (case (err, handler) of
             (Some e, Some h) \<Rightarrow>
               invoke h OutParameterRunMarshalFromJSONError (e @ '', body:'' @ truncate200 body)
                 ((call (CallUnmarshal body) r)\<lparr>out_after := out'\<rparr>)
           | _ \<Rightarrow> (call (CallUnmarshal body) r)\<lparr>out_after := out'\<rparr>))"

text \<open>Lines 141 to 147: the status check.\<close>

definition check_status ::
  "('i, 'o) env \<Rightarrow> (ErrType \<Rightarrow> error \<Rightarrow> 's \<Rightarrow> 's) option \<Rightarrow> Response \<Rightarrow> string \<Rightarrow>
   ('i, 'o, 's) outcome \<Rightarrow> ('i, 'o, 's) outcome" where
  "check_status env handler resp body r =
     (case (StatusCode resp \<noteq> StatusOK, handler) of
        (True, Some h) \<Rightarrow>
          invoke h ResponseStatusCodeNotOK
            (''code: '' @ fmt_d (StatusCode resp) @ '', message: '' @ truncate200 body) r
      | _ \<Rightarrow> unmarshal_out env handler body r)"

text \<open>
  Lines 134 to 139: \<open>resp.Body\<close> is read through the pointer \<open>resp\<close>, the close of the
  body is deferred to the end of the call, and the body is read.
\<close>

definition read_response ::
  "('i, 'o) env \<Rightarrow> (ErrType \<Rightarrow> error \<Rightarrow> 's \<Rightarrow> 's) option \<Rightarrow> Response option \<Rightarrow>
   ('i, 'o, 's) outcome \<Rightarrow> ('i, 'o, 's) outcome" where
  "read_response env handler resp_opt r =
     (case resp_opt of
        None \<Rightarrow> r\<lparr>ending := PanicNilResponse\<rparr>
      | Some resp \<Rightarrow>
          (case Body resp of
             (body, err) \<Rightarrow>
               call CallClose
                 (case (err, handler) of
                    (Some e, Some h) \<Rightarrow> invoke h IOError e (call CallReadAll r)
                  | _ \<Rightarrow> check_status env handler resp body (call CallReadAll r))))"

text \<open>Lines 120 to 126: the headers.\<close>

definition set_headers :: "('i, 'o) env \<Rightarrow> HTTPParam \<Rightarrow> Request \<Rightarrow> Request" where
  "set_headers env hp req =
     foldl (\<lambda>rq (key, val). Header_Set env key val rq)
       (Header_Set env ''kuscia-Host'' (KusciaHost hp)
         (Header_Set env ''Kuscia-Source'' (KusciaSource hp)
           (Header_Set env (ServiceHandshake env @ ''-Cluster'') (ClusterName hp)
             (Header_Set env ''Content-Type'' ''application/json'' req))))
       (Headers hp)"

text \<open>Lines 120 to 132: the headers are set through the pointer \<open>req\<close> and the request is sent.\<close>

definition send_request ::
  "('i, 'o) env \<Rightarrow> HTTPParam \<Rightarrow> (ErrType \<Rightarrow> error \<Rightarrow> 's \<Rightarrow> 's) option \<Rightarrow> Request option \<Rightarrow>
   ('i, 'o, 's) outcome \<Rightarrow> ('i, 'o, 's) outcome" where
  "send_request env hp handler req_opt r =
     (case req_opt of
        None \<Rightarrow> r\<lparr>ending := PanicNilRequest\<rparr>
      | Some req0 \<Rightarrow>
          (let req = set_headers env hp req0 in
           case Do env req of
             DoOK resp \<Rightarrow> read_response env handler (Some resp) (call (CallDo req) r)
           | DoErr e resp_opt \<Rightarrow>
               (case handler of
                  Some h \<Rightarrow> invoke h DoHTTPError e (call (CallDo req) r)
                | None \<Rightarrow> read_response env handler resp_opt (call (CallDo req) r))))"

text \<open>
  \<open>http.NewRequest(method, url, body)\<close> with the check that follows it (lines 102 to 106
  and 113 to 117).
\<close>

definition new_request ::
  "('i, 'o) env \<Rightarrow> HTTPParam \<Rightarrow> (ErrType \<Rightarrow> error \<Rightarrow> 's \<Rightarrow> 's) option \<Rightarrow>
   string \<Rightarrow> string \<Rightarrow> string option \<Rightarrow> ('i, 'o, 's) outcome \<Rightarrow> ('i, 'o, 's) outcome" where
  "new_request env hp handler method url body r =
     (case NewRequest env method url body of
        Inr req \<Rightarrow> send_request env hp handler (Some req) (call (CallNewRequest method url body) r)
      | Inl err \<Rightarrow>
          (case handler of
             Some h \<Rightarrow> invoke h NewHTTPRequestError err (call (CallNewRequest method url body) r)
           | None \<Rightarrow> send_request env hp handler None (call (CallNewRequest method url body) r)))"

text \<open>
  The executor. \<open>handler\<close> is \<open>None\<close> for a nil handler; \<open>s\<close> is the state the handler
  works on. After a failed \<open>json.Marshal\<close> that is not reported, \<open>inbody\<close> is nil and
  \<open>bytes.NewBuffer\<close> makes an empty body of it.
\<close>

definition DoHTTPWithHandler ::
  "('i, 'o) env \<Rightarrow> 'i \<Rightarrow> 'o \<Rightarrow> HTTPParam \<Rightarrow> (ErrType \<Rightarrow> error \<Rightarrow> 's \<Rightarrow> 's) option \<Rightarrow> 's \<Rightarrow>
   ('i, 'o, 's) outcome" where
  "DoHTTPWithHandler env inp out hp handler s =
     (let r0 = \<lparr>calls = [], handled = [], out_after = out, hstate = s, ending = Returned\<rparr>;
          url = InternalServer env @ Path hp
      in if Method hp = MethodGet then
           new_request env hp handler MethodGet url None r0
         else
           (case (Marshal env inp, handler) of
              (Inl err, Some h) \<Rightarrow> invoke h InParameterMarshalToJSONError err (call (CallMarshal inp) r0)
            | (m, _) \<Rightarrow>
                (let inbody = (case m of Inr b \<Rightarrow> b | Inl _ \<Rightarrow> [])
                 in new_request env hp handler (Method hp) url (Some inbody) (call (CallMarshal inp) r0))))"

subsection \<open>DoHTTP\<close>

definition genErrorPrefix :: "HTTPParam \<Rightarrow> string" where
  "genErrorPrefix hp =
     ''request(method:'' @ Method hp @ '' path:'' @ Path hp @ '' cluster:'' @ ClusterName hp
       @ '' host:'' @ KusciaHost hp @ '')''"

text \<open>The closure DoHTTP passes as handler; its state is the variable \<open>e\<close>.\<close>

definition DoHTTP_handler :: "HTTPParam \<Rightarrow> ErrType \<Rightarrow> error \<Rightarrow> error option \<Rightarrow> error option" where
  "DoHTTP_handler hp et err e =
     (case et of
        NewHTTPRequestError \<Rightarrow> Some (genErrorPrefix hp @ '' new fail:'' @ err)
      | InParameterMarshalToJSONError \<Rightarrow>
          Some (genErrorPrefix hp @ '' in parameter marshal to json fail:'' @ err)
      | OutParameterRunMarshalFromJSONError \<Rightarrow>
          Some (genErrorPrefix hp @ '' out parameter unmarshal from json fail:'' @ err)
      | ResponseStatusCodeNotOK \<Rightarrow> Some (genErrorPrefix hp @ '' get code is not ok: '' @ err)
      | DoHTTPError \<Rightarrow> Some (genErrorPrefix hp @ '' do fail: '' @ err)
      | IOError \<Rightarrow> Some (genErrorPrefix hp @ '' read body fail: '' @ err))"

text \<open>The error DoHTTP returns is the final value of \<open>e\<close>: the field \<open>hstate\<close>.\<close>

definition DoHTTP :: "('i, 'o) env \<Rightarrow> 'i \<Rightarrow> 'o \<Rightarrow> HTTPParam \<Rightarrow> ('i, 'o, error option) outcome" where
  "DoHTTP env inp out hp = DoHTTPWithHandler env inp out hp (Some (DoHTTP_handler hp)) None"

subsection \<open>DoHTTPWithRetry\<close>

text \<open>
  What a call of DoHTTPWithRetry does: how it ended, the error returned, the output
  location afterwards, the number of calls of DoHTTP, and the durations slept.
\<close>

record 'o retry =
  r_ending :: ending
  r_err :: "error option"
  r_out :: 'o
  r_attempts :: nat
  r_sleeps :: "int list"

text \<open>
  The loop of lines 76 to 82, from the value \<open>i\<close> of the counter. \<open>world n\<close> is the
  behaviour of the collaborators during attempt number \<open>n\<close>, counted from 0; \<open>err\<close> is
  the variable of line 75. A panic inside DoHTTP ends the whole call.
\<close>

function retry_loop ::
  "(nat \<Rightarrow> ('i, 'o) env) \<Rightarrow> 'i \<Rightarrow> HTTPParam \<Rightarrow> int \<Rightarrow> int \<Rightarrow> int \<Rightarrow> error option \<Rightarrow> 'o retry \<Rightarrow>
   'o retry" where
  "retry_loop world inp hp waitTime maxRetryTimes i err st =
     (if i < maxRetryTimes then
        (let a = DoHTTP (world (r_attempts st)) inp (r_out st) hp;
             st1 = st\<lparr>r_out := out_after a, r_attempts := r_attempts st + 1\<rparr>
         in if ending a \<noteq> Returned then st1\<lparr>r_ending := ending a\<rparr>
            else if hstate a = None then st1\<lparr>r_ending := Returned, r_err := None\<rparr>
            else retry_loop world inp hp waitTime maxRetryTimes (i + 1) (hstate a)
                   (st1\<lparr>r_sleeps := r_sleeps st1 @ [waitTime]\<rparr>))
      else
        (case err of
           None \<Rightarrow> st\<lparr>r_ending := PanicNilError\<rparr>
         | Some e \<Rightarrow>
             st\<lparr>r_ending := Returned,
                r_err := Some (''request error, retry at maxtimes:'' @ fmt_d maxRetryTimes
                               @ '', path: '' @ Path hp @ '', err:'' @ e)\<rparr>))"
  by pat_completeness auto
termination
  by (relation "measure (\<lambda>(world, inp, hp, waitTime, maxRetryTimes, i, err, st).
                           nat (maxRetryTimes - i))") auto

definition DoHTTPWithRetry ::
  "(nat \<Rightarrow> ('i, 'o) env) \<Rightarrow> 'i \<Rightarrow> 'o \<Rightarrow> HTTPParam \<Rightarrow> int \<Rightarrow> int \<Rightarrow> 'o retry" where
  "DoHTTPWithRetry world inp out hp waitTime maxRetryTimes =
     retry_loop world inp hp waitTime maxRetryTimes 0 None
       \<lparr>r_ending = Returned, r_err = None, r_out = out, r_attempts = 0, r_sleeps = []\<rparr>"

subsection \<open>Definitions for the statements\<close>


text \<open>
  The steps of one attempt in order, as the description of the executor lists them, and
  the category of the first one that fails; \<open>None\<close> when every step succeeds.
\<close>

definition first_failure :: "('i, 'o) env \<Rightarrow> 'i \<Rightarrow> 'o \<Rightarrow> HTTPParam \<Rightarrow> ErrType option" where
  "first_failure env inp out hp =
     (case (if Method hp = ''GET'' then Inr None
            else (case Marshal env inp of Inl e \<Rightarrow> Inl e | Inr b \<Rightarrow> Inr (Some b))) of
        Inl e \<Rightarrow> Some InParameterMarshalToJSONError
      | Inr body \<Rightarrow>
          (case NewRequest env (Method hp) (InternalServer env @ Path hp) body of
             Inl e \<Rightarrow> Some NewHTTPRequestError
           | Inr req \<Rightarrow>
               (case Do env (set_headers env hp req) of
                  DoErr e resp \<Rightarrow> Some DoHTTPError
                | DoOK resp \<Rightarrow>
                    (case Body resp of
                       (b, Some e) \<Rightarrow> Some IOError
                     | (b, None) \<Rightarrow>
                         if StatusCode resp \<noteq> 200 then Some ResponseStatusCodeNotOK
                         else (case snd (Unmarshal env b out) of
                                 Some e \<Rightarrow> Some OutParameterRunMarshalFromJSONError
                               | None \<Rightarrow> None)))))"

text \<open>
  The body an attempt gives to \<open>http.NewRequest\<close> when no failure of \<open>json.Marshal\<close>
  ended it before: none for GET, otherwise the marshalled input, or the empty body when
  \<open>json.Marshal\<close> failed. Then the request built with it, and the library calls made up
  to there.
\<close>

definition request_body :: "('i, 'o) env \<Rightarrow> 'i \<Rightarrow> HTTPParam \<Rightarrow> string option" where
  "request_body env inp hp =
     (if Method hp = ''GET'' then None
      else Some (case Marshal env inp of Inr b \<Rightarrow> b | Inl e \<Rightarrow> []))"

definition built_request :: "('i, 'o) env \<Rightarrow> 'i \<Rightarrow> HTTPParam \<Rightarrow> error + Request" where
  "built_request env inp hp =
     NewRequest env (Method hp) (InternalServer env @ Path hp) (request_body env inp hp)"

definition request_calls :: "('i, 'o) env \<Rightarrow> 'i \<Rightarrow> HTTPParam \<Rightarrow> 'i call list" where
  "request_calls env inp hp =
     (if Method hp = ''GET'' then [] else [CallMarshal inp])
     @ [CallNewRequest (Method hp) (InternalServer env @ Path hp) (request_body env inp hp)]"

text \<open>
  The output location before attempt number \<open>n\<close> of DoHTTPWithRetry (counted from 0),
  when the attempts before it have all returned.
\<close>

fun out_before :: "(nat \<Rightarrow> ('i, 'o) env) \<Rightarrow> 'i \<Rightarrow> 'o \<Rightarrow> HTTPParam \<Rightarrow> nat \<Rightarrow> 'o" where
  "out_before world inp out hp 0 = out"
| "out_before world inp out hp (Suc n) =
     out_after (DoHTTP (world n) inp (out_before world inp out hp n) hp)"

text \<open>The error attempt number \<open>n\<close> of DoHTTPWithRetry returns; \<open>None\<close> when it succeeds.\<close>

definition attempt_err :: "(nat \<Rightarrow> ('i, 'o) env) \<Rightarrow> 'i \<Rightarrow> 'o \<Rightarrow> HTTPParam \<Rightarrow> nat \<Rightarrow> error option" where
  "attempt_err world inp out hp n =
     hstate (DoHTTP (world n) inp (out_before world inp out hp n) hp)"

subsection \<open>Stub collaborators for the examples\<close>

text \<open>
  A transport stub that answers every request with the given status code and body. Its
  encoder is the identity and its decoder stores the body in the output location; the
  decoder fails on an empty body and leaves the output location as it is.
\<close>

definition stub :: "int \<Rightarrow> string \<Rightarrow> (string, string) env" where
  "stub code body =
     \<lparr>InternalServer = ''http://127.0.0.1:80'',
      ServiceHandshake = ''Kuscia-Handshake'',
      Marshal = (\<lambda>v. Inr v),
      NewRequest = (\<lambda>m u b. Inr \<lparr>req_method = m, req_url = u, req_body = b, req_header = []\<rparr>),
      CanonicalHeaderKey = (\<lambda>k. k),
      Do = (\<lambda>rq. DoOK \<lparr>StatusCode = code, Body = (body, None)\<rparr>),
      Unmarshal = (\<lambda>b out. if b = [] then (out, Some ''unexpected end of JSON input'')
                             else (b, None))\<rparr>"

definition hp_get :: HTTPParam where
  "hp_get = \<lparr>Method = ''GET'', Path = ''/x'', ClusterName = ''c'', KusciaSource = ''s'',
            KusciaHost = ''h'', Headers = []\<rparr>"

definition hp_post :: HTTPParam where
  "hp_post = \<lparr>Method = ''POST'', Path = ''/x'', ClusterName = ''c'', KusciaSource = ''s'',
             KusciaHost = ''h'', Headers = []\<rparr>"

text \<open>The request the stub builds for \<open>hp_get\<close>, with the headers of lines 120 to 123.\<close>

definition req_get :: Request where
  "req_get = \<lparr>req_method = ''GET'', req_url = ''http://127.0.0.1:80/x'', req_body = None,
             req_header = [(''Content-Type'', ''application/json''),
                           (''Kuscia-Handshake-Cluster'', ''c''),
                           (''Kuscia-Source'', ''s''), (''kuscia-Host'', ''h'')]\<rparr>"

text \<open>A handler that counts its invocations.\<close>

definition counting :: "ErrType \<Rightarrow> error \<Rightarrow> nat \<Rightarrow> nat" where
  "counting et err n = Suc n"

text \<open>
  Two transports for DoHTTPWithRetry: one that answers every attempt with status 500, and
  one that does so for the first two attempts and answers the third with status 200 and
  the body \<open>new\<close>.
\<close>

definition world_fail :: "nat \<Rightarrow> (string, string) env" where
  "world_fail n = stub 500 ''down''"

definition world_third :: "nat \<Rightarrow> (string, string) env" where
  "world_third n = (if n < 2 then stub 500 ''down'' else stub 200 ''new'')"

section \<open>Properties of ParseURL\<close>

lemma HasPrefix_prefix: "HasPrefix s p = prefix p s"
proof
  assume "HasPrefix s p"
  then have "s = p @ drop (length p) s"
    unfolding HasPrefix_def by (metis append_take_drop_id)
  then show "prefix p s" by (rule prefixI)
next
  assume "prefix p s"
  then show "HasPrefix s p" by (auto simp: HasPrefix_def prefix_def)
qed

lemma Split_no_sep: "sep \<notin> set s \<Longrightarrow> Split s sep = [s]"
  by (induction s) auto

lemma Split_one_sep:
  "sep \<notin> set h \<Longrightarrow> sep \<notin> set r \<Longrightarrow> Split (h @ sep # r) sep = [h, r]"
  by (induction h) (auto simp: Split_no_sep)

lemma SplitN2_no_sep: "sep \<notin> set s \<Longrightarrow> SplitN2 s sep = [s]"
  by (simp add: SplitN2_def)

lemma SplitN2_sep: "sep \<notin> set h \<Longrightarrow> SplitN2 (h @ sep # r) sep = [h, r]"
proof (induction h)
  case Nil
  show ?case by (simp add: SplitN2_def)
next
  case (Cons a h)
  then have "a \<noteq> sep" by fastforce
  with Cons show ?case by (simp add: SplitN2_def)
qed

lemma not_digit_seps:
  "\<not> is_digit CHR '':''" "\<not> is_digit CHR ''/''" "\<not> is_digit CHR ''-''" "\<not> is_digit CHR ''+''"
  by (simp_all add: is_digit_def)

lemma digits_no_seps:
  "\<forall>c\<in>set ds. is_digit c \<Longrightarrow> CHR '':'' \<notin> set ds \<and> CHR ''/'' \<notin> set ds"
  using not_digit_seps by blast

lemma digit_val_digit: "is_digit c \<Longrightarrow> digit_val c = Some (of_char c - 48)"
  by (simp add: digit_val_def)








lemma parse_digits_decimal:
  "\<forall>c\<in>set ds. is_digit c \<Longrightarrow>
   parse_digits ds n = Some (foldl (\<lambda>n c. n * 10 + (of_char c - 48)) n ds)"
  by (induction ds arbitrary: n) (auto simp: digit_val_digit)

lemma decimal_mono_from:
  "\<forall>c\<in>set ds. is_digit c \<Longrightarrow> (0::int) \<le> n \<Longrightarrow>
   n \<le> foldl (\<lambda>n c. n * 10 + (of_char c - 48)) n ds"
proof (induction ds arbitrary: n)
  case Nil
  then show ?case by simp
next
  case (Cons c ds)
  from Cons.prems(1) have "is_digit c" by simp
  then have d: "(0::int) \<le> of_char c - 48"
    by (auto simp: is_digit_def)
  with Cons.prems(2) have "0 \<le> n * 10 + (of_char c - 48)" by simp
  with Cons have "n * 10 + (of_char c - 48)
                  \<le> foldl (\<lambda>n c. n * 10 + (of_char c - 48)) (n * 10 + (of_char c - 48)) ds"
    by simp
  moreover have "n \<le> n * 10 + (of_char c - 48)" using d Cons.prems(2) by simp
  ultimately show ?case by simp
qed

lemma maxUint64_value: "maxUint64 = 18446744073709551615"
  by (simp add: maxUint64_def)

lemma cutoff_value: "maxUint64 div 10 + 1 = 1844674407370955162"
  by (simp add: maxUint64_value)

lemma ParseUint_loop_step:
  assumes "digit_val c = Some d" and "n < 1844674407370955162"
    and "n * 10 + d \<le> 18446744073709551615"
  shows "ParseUint_loop (c # cs) n = ParseUint_loop cs (n * 10 + d)"
proof -
  have 1: "\<not> n \<ge> maxUint64 div 10 + 1"
    unfolding cutoff_value using assms(2) by simp
  have 2: "\<not> n * 10 + d > maxUint64"
    unfolding maxUint64_value using assms(3) by simp
  show ?thesis
    by (simp only: ParseUint_loop.simps assms(1) option.case 1 2 if_False)
qed

lemma ParseUint_loop_digits:
  "\<forall>c\<in>set ds. is_digit c \<Longrightarrow> 0 \<le> n \<Longrightarrow>
   foldl (\<lambda>n c. n * 10 + (of_char c - 48)) n ds \<le> maxUint64 \<Longrightarrow>
   ParseUint_loop ds n = (foldl (\<lambda>n c. n * 10 + (of_char c - 48)) n ds, None)"
proof (induction ds arbitrary: n)
  case Nil
  then show ?case by simp
next
  case (Cons c ds)
  from Cons.prems(1) have dig: "is_digit c" "\<forall>c\<in>set ds. is_digit c" by simp_all
  from dig(1) have d: "(0::int) \<le> of_char c - 48" by (auto simp: is_digit_def)
  define m where "m = n * 10 + (of_char c - 48)"
  have n0: "0 \<le> m" using d Cons.prems(2) by (simp add: m_def)
  have "m \<le> foldl (\<lambda>n c. n * 10 + (of_char c - 48)) m ds"
    using dig(2) n0 by (rule decimal_mono_from)
  moreover have f: "foldl (\<lambda>n c. n * 10 + (of_char c - 48)) m ds \<le> maxUint64"
    using Cons.prems(3) by (simp add: m_def)
  ultimately have fits: "m \<le> 18446744073709551615"
    unfolding maxUint64_value by linarith
  then have "n * 10 \<le> 18446744073709551615" using d unfolding m_def by linarith
  then have cut: "n < 1844674407370955162" by linarith
  have "ParseUint_loop (c # ds) n = ParseUint_loop ds m"
    unfolding m_def using digit_val_digit[OF dig(1)] cut fits[unfolded m_def]
    by (rule ParseUint_loop_step)
  also have "\<dots> = (foldl (\<lambda>n c. n * 10 + (of_char c - 48)) m ds, None)"
    using dig(2) n0 f by (rule Cons.IH)
  finally show ?case by (simp add: m_def)
qed

lemma Atoi_digits:
  assumes "ds \<noteq> []" "\<forall>c\<in>set ds. is_digit c" "decimal ds < 2 ^ 63"
  shows "Atoi ds = (decimal ds, None)"
proof -
  have "is_digit (hd ds)" using assms by (cases ds) auto
  then have sign: "hd ds \<noteq> CHR ''-''" "hd ds \<noteq> CHR ''+''" using not_digit_seps by auto
  show ?thesis
  proof (cases "length ds < 19")
    case True
    then show ?thesis using assms sign
      by (simp add: Atoi_def parse_digits_decimal decimal_def)
  next
    case False
    have "decimal ds \<le> maxUint64" using assms(3) by (simp add: maxUint64_def)
    then have "ParseUint_loop ds 0 = (decimal ds, None)"
      using ParseUint_loop_digits[OF assms(2), of 0] by (simp add: decimal_def)
    then have "ParseInt ds = (decimal ds, None)"
      using assms(1,3) sign by (simp add: ParseInt_def ParseUint_def)
    then show ?thesis using False by (simp add: Atoi_def)
  qed
qed

lemma decimal_nonneg_from:
  "\<forall>c\<in>set ds. is_digit c \<Longrightarrow> (0::int) \<le> n \<Longrightarrow>
   0 \<le> foldl (\<lambda>n c. n * 10 + (of_char c - 48)) n ds"
proof (induction ds arbitrary: n)
  case Nil
  then show ?case by simp
next
  case (Cons c ds)
  from Cons.prems(1) have "is_digit c" by simp
  then have "(0::int) \<le> of_char c - 48"
    by (auto simp: is_digit_def)
  with Cons.prems(2) have "0 \<le> n * 10 + (of_char c - 48)" by simp
  with Cons show ?case by simp
qed

lemma decimal_nonneg: "\<forall>c\<in>set ds. is_digit c \<Longrightarrow> 0 \<le> decimal ds"
  unfolding decimal_def by (rule decimal_nonneg_from) simp_all

lemma parse_host_port_wf:
  assumes "CHR '':'' \<notin> set host" "CHR ''/'' \<notin> set host"
    and "case port of None \<Rightarrow> True
         | Some ds \<Rightarrow> ds \<noteq> [] \<and> (\<forall>c\<in>set ds. is_digit c) \<and> decimal ds < 2 ^ 32"
  shows "parse_host_port scheme
           (host @ (case port of None \<Rightarrow> [] | Some ds \<Rightarrow> '':'' @ ds)
                 @ (case path of None \<Rightarrow> [] | Some p \<Rightarrow> ''/'' @ p)) =
         (scheme, host,
          (case port of None \<Rightarrow> if scheme = ''http'' then 80 else 443
                      | Some ds \<Rightarrow> word_of_int (decimal ds)),
          (case path of None \<Rightarrow> [] | Some p \<Rightarrow> ''/'' @ p), None)"
proof -
  define hp where "hp = host @ (case port of None \<Rightarrow> [] | Some ds \<Rightarrow> '':'' @ ds)"
  have nosl: "CHR ''/'' \<notin> set hp"
    using assms digits_no_seps by (cases port) (simp_all add: hp_def)
  have parts: "SplitN2 (hp @ (case path of None \<Rightarrow> [] | Some p \<Rightarrow> ''/'' @ p)) CHR ''/'' =
      (case path of None \<Rightarrow> [hp] | Some p \<Rightarrow> [hp, p])"
    using nosl SplitN2_sep[of "CHR ''/''" hp] SplitN2_no_sep[of "CHR ''/''" hp]
    by (cases path) simp_all
  have fields: "Split hp CHR '':'' = (case port of None \<Rightarrow> [host] | Some ds \<Rightarrow> [host, ds])"
    using assms digits_no_seps Split_one_sep[of "CHR '':''" host] Split_no_sep[of "CHR '':''" host]
    by (cases port) (simp_all add: hp_def)
  have atoi: "port = Some ds \<Longrightarrow> Atoi ds = (decimal ds, None)" for ds
  proof -
    assume p: "port = Some ds"
    with assms(3) have a: "ds \<noteq> []" "\<forall>c\<in>set ds. is_digit c" "decimal ds < 2 ^ 32"
      by simp_all
    have "(2::int) ^ 32 < 2 ^ 63" by simp
    with a(3) have "decimal ds < 2 ^ 63" by linarith
    with a show ?thesis by (simp add: Atoi_digits)
  qed
  have "parse_host_port scheme (hp @ (case path of None \<Rightarrow> [] | Some p \<Rightarrow> ''/'' @ p)) =
         (scheme, host,
          (case port of None \<Rightarrow> if scheme = ''http'' then 80 else 443
                      | Some ds \<Rightarrow> word_of_int (decimal ds)),
          (case path of None \<Rightarrow> [] | Some p \<Rightarrow> ''/'' @ p), None)"
    unfolding parse_host_port_def parts
    by (cases port; cases path) (simp_all add: fields atoi Let_def)
  then show ?thesis by (simp add: hp_def)
qed



lemma ParseURL_http: "ParseURL (''http://'' @ rest) = parse_host_port ''http'' rest"
  by (simp add: ParseURL_def HasPrefix_def)

lemma ParseURL_https: "ParseURL (''https://'' @ rest) = parse_host_port ''https'' rest"
  by (simp add: ParseURL_def HasPrefix_def)

lemma ParseURL_scheme:
  "scheme = ''http'' \<or> scheme = ''https'' \<Longrightarrow>
   ParseURL (scheme @ ''://'' @ rest) = parse_host_port scheme rest"
  using ParseURL_http[of rest] ParseURL_https[of rest] by auto

lemma uint32_exact: "0 \<le> k \<Longrightarrow> k < 2 ^ 32 \<Longrightarrow> uint (word_of_int k :: 32 word) = k"
  by (simp add: uint_word_of_int_eq take_bit_int_eq_self)


text \<open>
  Claim C3. For every input \<open>scheme://host[:port][/path]\<close> with scheme \<open>http\<close> or
  \<open>https\<close>, a host without \<open>:\<close> and \<open>/\<close>, and a port written in decimal digits and
  below \<open>2^32\<close>, ParseURL returns that scheme, that host, the number of the port (80 for
  \<open>http\<close> and 443 for \<open>https\<close> when there is none), the path with its leading \<open>/\<close>
  (empty when there is none), and no error. For every input that starts with neither
  \<open>http://\<close> nor \<open>https://\<close> it returns the error \<open>invalid host: \<close> followed by the
  input.
\<close>

theorem ParseURL_well_formed:
  assumes "scheme = ''http'' \<or> scheme = ''https''"
    and "CHR '':'' \<notin> set host" and "CHR ''/'' \<notin> set host"
    and "case port of None \<Rightarrow> True
         | Some ds \<Rightarrow> ds \<noteq> [] \<and> (\<forall>c\<in>set ds. is_digit c) \<and> decimal ds < 2 ^ 32"
  shows "ParseURL (scheme @ ''://'' @ host
                    @ (case port of None \<Rightarrow> [] | Some ds \<Rightarrow> '':'' @ ds)
                    @ (case path of None \<Rightarrow> [] | Some p \<Rightarrow> ''/'' @ p)) =
           (scheme, host,
            word_of_int (case port of None \<Rightarrow> if scheme = ''http'' then 80 else 443
                                    | Some ds \<Rightarrow> decimal ds),
            (case path of None \<Rightarrow> [] | Some p \<Rightarrow> ''/'' @ p), None)
         \<and> uint (word_of_int (case port of None \<Rightarrow> if scheme = ''http'' then 80 else 443
                                         | Some ds \<Rightarrow> decimal ds) :: 32 word) =
             (case port of None \<Rightarrow> if scheme = ''http'' then 80 else 443 | Some ds \<Rightarrow> decimal ds)
         \<and> (\<not> prefix ''http://'' url \<and> \<not> prefix ''https://'' url \<longrightarrow>
              ParseURL url = ([], [], 0, [], Some (Errorf (''invalid host: '' @ url))))"
proof (intro conjI impI)
  show "ParseURL (scheme @ ''://'' @ host
                    @ (case port of None \<Rightarrow> [] | Some ds \<Rightarrow> '':'' @ ds)
                    @ (case path of None \<Rightarrow> [] | Some p \<Rightarrow> ''/'' @ p)) =
           (scheme, host,
            word_of_int (case port of None \<Rightarrow> if scheme = ''http'' then 80 else 443
                                    | Some ds \<Rightarrow> decimal ds),
            (case path of None \<Rightarrow> [] | Some p \<Rightarrow> ''/'' @ p), None)"
    using ParseURL_scheme[OF assms(1)] parse_host_port_wf[OF assms(2,3,4), of scheme path]
    by (cases port) simp_all
next
  show "uint (word_of_int (case port of None \<Rightarrow> if scheme = ''http'' then 80 else 443
                                       | Some ds \<Rightarrow> decimal ds) :: 32 word) =
          (case port of None \<Rightarrow> if scheme = ''http'' then 80 else 443 | Some ds \<Rightarrow> decimal ds)"
  proof (cases port)
    case None
    then show ?thesis by simp
  next
    case (Some ds)
    with assms(4) have "0 \<le> decimal ds" "decimal ds < 2 ^ 32"
      by (simp_all add: decimal_nonneg)
    with Some show ?thesis by (simp add: uint32_exact)
  qed
next
  assume "\<not> prefix ''http://'' url \<and> \<not> prefix ''https://'' url"
  then show "ParseURL url = ([], [], 0, [], Some (Errorf (''invalid host: '' @ url)))"
    unfolding ParseURL_def HasPrefix_prefix by simp
qed

theorem ParseURL_well_formed_witness:
  "ParseURL ''https://example.com:8443'' = (''https'', ''example.com'', 8443, [], None)
   \<and> ParseURL ''ftp://x'' = ([], [], 0, [], Some (Errorf ''invalid host: ftp://x''))"
  using ParseURL_well_formed [of "''https''" "''example.com''" "Some ''8443''" None "''ftp://x''"]
  by (simp add: is_digit_def decimal_def)




text \<open>
  The two errors of a long port: digits that overflow before a letter is read are a
  range error, a letter read before any overflow is a syntax error.
\<close>

lemma ParseURL_long_port:
  "ParseURL ''http://a:99999999999999999999x'' =
     (''http'', ''a'', 4294967295, [],
      Some (NumError ''Atoi'' ''99999999999999999999x'' ErrRange))"
  "ParseURL ''http://a:x99999999999999999999'' =
     (''http'', ''a'', 0, [],
      Some (NumError ''Atoi'' ''x99999999999999999999'' ErrSyntax))"
  "ParseURL ''http://a:9223372036854775808'' =
     (''http'', ''a'', 4294967295, [],
      Some (NumError ''Atoi'' ''9223372036854775808'' ErrRange))"
  by (simp_all add: ParseURL_def HasPrefix_def parse_host_port_def SplitN2_def Atoi_def
      ParseInt_def ParseUint_def maxUint64_def digit_val_def is_digit_def)

section \<open>Properties of the request executor\<close>

text \<open>
  The paths through DoHTTPWithHandler with a handler: each failure is reported to the
  handler and ends the attempt.
\<close>

lemmas exec_defs = DoHTTPWithHandler_def new_request_def send_request_def read_response_def
  check_status_def unmarshal_out_def call_def invoke_def MethodGet_def StatusOK_def Let_def
  built_request_def request_body_def request_calls_def

lemma executor_handler_cases:
  assumes r: "r = DoHTTPWithHandler env inp out hp (Some h) s"
  obtains
    (marshal_failed) e where
      "Method hp \<noteq> ''GET''" "Marshal env inp = Inl e"
      "r = \<lparr>calls = [CallMarshal inp], handled = [(InParameterMarshalToJSONError, e)],
            out_after = out, hstate = h InParameterMarshalToJSONError e s, ending = Returned\<rparr>"
  | (request_failed) e where
      "Method hp = ''GET'' \<or> (\<exists>b. Marshal env inp = Inr b)"
      "built_request env inp hp = Inl e"
      "r = \<lparr>calls = request_calls env inp hp, handled = [(NewHTTPRequestError, e)],
            out_after = out, hstate = h NewHTTPRequestError e s, ending = Returned\<rparr>"
  | (send_failed) req e ro where
      "Method hp = ''GET'' \<or> (\<exists>b. Marshal env inp = Inr b)"
      "built_request env inp hp = Inr req"
      "Do env (set_headers env hp req) = DoErr e ro"
      "r = \<lparr>calls = request_calls env inp hp @ [CallDo (set_headers env hp req)],
            handled = [(DoHTTPError, e)],
            out_after = out, hstate = h DoHTTPError e s, ending = Returned\<rparr>"
  | (read_failed) req resp body e where
      "Method hp = ''GET'' \<or> (\<exists>b. Marshal env inp = Inr b)"
      "built_request env inp hp = Inr req"
      "Do env (set_headers env hp req) = DoOK resp"
      "Body resp = (body, Some e)"
      "r = \<lparr>calls = request_calls env inp hp
                      @ [CallDo (set_headers env hp req), CallReadAll, CallClose],
            handled = [(IOError, e)],
            out_after = out, hstate = h IOError e s, ending = Returned\<rparr>"
  | (bad_status) req resp body where
      "Method hp = ''GET'' \<or> (\<exists>b. Marshal env inp = Inr b)"
      "built_request env inp hp = Inr req"
      "Do env (set_headers env hp req) = DoOK resp"
      "Body resp = (body, None)"
      "StatusCode resp \<noteq> 200"
      "r = \<lparr>calls = request_calls env inp hp
                      @ [CallDo (set_headers env hp req), CallReadAll, CallClose],
            handled = [(ResponseStatusCodeNotOK,
                        ''code: '' @ fmt_d (StatusCode resp) @ '', message: '' @ take 200 body)],
            out_after = out,
            hstate = h ResponseStatusCodeNotOK
                       (''code: '' @ fmt_d (StatusCode resp) @ '', message: '' @ take 200 body) s,
            ending = Returned\<rparr>"
  | (decode_failed) req resp body out' e where
      "Method hp = ''GET'' \<or> (\<exists>b. Marshal env inp = Inr b)"
      "built_request env inp hp = Inr req"
      "Do env (set_headers env hp req) = DoOK resp"
      "Body resp = (body, None)"
      "StatusCode resp = 200"
      "Unmarshal env body out = (out', Some e)"
      "r = \<lparr>calls = request_calls env inp hp
                      @ [CallDo (set_headers env hp req), CallReadAll, CallUnmarshal body,
                         CallClose],
            handled = [(OutParameterRunMarshalFromJSONError, e @ '', body:'' @ take 200 body)],
            out_after = out',
            hstate = h OutParameterRunMarshalFromJSONError (e @ '', body:'' @ take 200 body) s,
            ending = Returned\<rparr>"
  | (succeeded) req resp body out' where
      "Method hp = ''GET'' \<or> (\<exists>b. Marshal env inp = Inr b)"
      "built_request env inp hp = Inr req"
      "Do env (set_headers env hp req) = DoOK resp"
      "Body resp = (body, None)"
      "StatusCode resp = 200"
      "Unmarshal env body out = (out', None)"
      "r = \<lparr>calls = request_calls env inp hp
                      @ [CallDo (set_headers env hp req), CallReadAll, CallUnmarshal body,
                         CallClose],
            handled = [], out_after = out', hstate = s, ending = Returned\<rparr>"
proof (cases "Method hp = ''GET'' \<or> (\<exists>b. Marshal env inp = Inr b)")
  case False
  then obtain e where m: "Method hp \<noteq> ''GET''" "Marshal env inp = Inl e"
    by (cases "Marshal env inp") auto
  show thesis
    by (rule marshal_failed[OF m]) (simp add: r exec_defs m)
next
  case mok: True
  show thesis
  proof (cases "built_request env inp hp")
    case (Inl e)
    have "r = \<lparr>calls = request_calls env inp hp, handled = [(NewHTTPRequestError, e)],
            out_after = out, hstate = h NewHTTPRequestError e s, ending = Returned\<rparr>"
      using mok Inl unfolding r exec_defs by auto
    then show thesis by (rule request_failed[OF mok Inl])
  next
    case (Inr req)
    have start: "r = send_request env hp (Some h) (Some req)
              \<lparr>calls = request_calls env inp hp, handled = [], out_after = out, hstate = s,
                 ending = Returned\<rparr>"
      using mok Inr unfolding r DoHTTPWithHandler_def new_request_def call_def MethodGet_def
        Let_def built_request_def request_body_def request_calls_def
      by auto
    show thesis
    proof (cases "Do env (set_headers env hp req)")
      case (DoErr e ro)
      have "r = \<lparr>calls = request_calls env inp hp @ [CallDo (set_headers env hp req)],
            handled = [(DoHTTPError, e)],
            out_after = out, hstate = h DoHTTPError e s, ending = Returned\<rparr>"
        unfolding start send_request_def by (simp add: DoErr call_def invoke_def)
      then show thesis by (rule send_failed[OF mok Inr DoErr])
    next
      case (DoOK resp)
      obtain body rerr where b: "Body resp = (body, rerr)" by (cases "Body resp")
      have t: "truncate200 body = take 200 body" by (simp add: truncate200_def)
      note stage = send_request_def read_response_def check_status_def unmarshal_out_def
        call_def invoke_def StatusOK_def Let_def
      show thesis
      proof (cases rerr)
        case (Some e)
        have "r = \<lparr>calls = request_calls env inp hp
                      @ [CallDo (set_headers env hp req), CallReadAll, CallClose],
            handled = [(IOError, e)],
            out_after = out, hstate = h IOError e s, ending = Returned\<rparr>"
          unfolding start by (simp add: stage DoOK b Some)
        then show thesis using read_failed[OF mok Inr DoOK] b Some by simp
      next
        case None
        show thesis
        proof (cases "StatusCode resp = 200")
          case False
          have "r = \<lparr>calls = request_calls env inp hp
                      @ [CallDo (set_headers env hp req), CallReadAll, CallClose],
            handled = [(ResponseStatusCodeNotOK,
                        ''code: '' @ fmt_d (StatusCode resp) @ '', message: '' @ take 200 body)],
            out_after = out,
            hstate = h ResponseStatusCodeNotOK
                       (''code: '' @ fmt_d (StatusCode resp) @ '', message: '' @ take 200 body) s,
            ending = Returned\<rparr>"
            unfolding start by (simp add: stage DoOK b None False t)
          then show thesis using bad_status[OF mok Inr DoOK] b None False by simp
        next
          case True
          obtain out' uerr where u: "Unmarshal env body out = (out', uerr)"
            by (cases "Unmarshal env body out")
          show thesis
          proof (cases uerr)
            case (Some e)
            have "r = \<lparr>calls = request_calls env inp hp
                      @ [CallDo (set_headers env hp req), CallReadAll, CallUnmarshal body,
                         CallClose],
              handled = [(OutParameterRunMarshalFromJSONError, e @ '', body:'' @ take 200 body)],
              out_after = out',
              hstate = h OutParameterRunMarshalFromJSONError (e @ '', body:'' @ take 200 body) s,
              ending = Returned\<rparr>"
              unfolding start by (simp add: stage DoOK b None True u Some t)
            then show thesis using decode_failed[OF mok Inr DoOK] b None True u Some by simp
          next
            case uNone: None
            have "r = \<lparr>calls = request_calls env inp hp
                      @ [CallDo (set_headers env hp req), CallReadAll, CallUnmarshal body,
                         CallClose],
              handled = [], out_after = out', hstate = s, ending = Returned\<rparr>"
              unfolding start by (simp add: stage DoOK b None True u uNone)
            then show thesis using succeeded[OF mok Inr DoOK] b None True u uNone by simp
          qed
        qed
      qed
    qed
  qed
qed

text \<open>
  The paths through DoHTTPWithHandler with a nil handler: no check ends the attempt, which
  runs on to a nil pointer or to the decoding of the body.
\<close>

lemma unmarshal_out_nil:
  "unmarshal_out env None body r =
     (call (CallUnmarshal body) r)\<lparr>out_after := fst (Unmarshal env body (out_after r))\<rparr>"
  unfolding unmarshal_out_def by (simp split: prod.splits option.splits)

lemma check_status_nil: "check_status env None resp body r = unmarshal_out env None body r"
  unfolding check_status_def by (simp split: bool.splits)

lemma read_response_nil:
  "read_response env None (Some resp) r =
     call CallClose (unmarshal_out env None (fst (Body resp)) (call CallReadAll r))"
  unfolding read_response_def by (simp add: check_status_nil split: prod.splits option.splits)

lemma executor_nil_cases:
  assumes r: "r = DoHTTPWithHandler env inp out hp None s"
  obtains
    (nil_request) e where
      "built_request env inp hp = Inl e"
      "r = \<lparr>calls = request_calls env inp hp, handled = [],
            out_after = out, hstate = s, ending = PanicNilRequest\<rparr>"
  | (nil_response) req e where
      "built_request env inp hp = Inr req"
      "Do env (set_headers env hp req) = DoErr e None"
      "r = \<lparr>calls = request_calls env inp hp @ [CallDo (set_headers env hp req)],
            handled = [], out_after = out, hstate = s, ending = PanicNilResponse\<rparr>"
  | (decoded) req resp body rerr out' uerr where
      "built_request env inp hp = Inr req"
      "Do env (set_headers env hp req) = DoOK resp
       \<or> (\<exists>e. Do env (set_headers env hp req) = DoErr e (Some resp))"
      "Body resp = (body, rerr)"
      "Unmarshal env body out = (out', uerr)"
      "r = \<lparr>calls = request_calls env inp hp
                      @ [CallDo (set_headers env hp req), CallReadAll, CallUnmarshal body,
                         CallClose],
            handled = [], out_after = out', hstate = s, ending = Returned\<rparr>"
proof (cases "built_request env inp hp")
  case (Inl e)
  have "r = \<lparr>calls = request_calls env inp hp, handled = [],
            out_after = out, hstate = s, ending = PanicNilRequest\<rparr>"
    using Inl unfolding r DoHTTPWithHandler_def new_request_def call_def MethodGet_def
      Let_def built_request_def request_body_def request_calls_def send_request_def
    by (cases "Marshal env inp") auto
  then show thesis by (rule nil_request[OF Inl])
next
  case (Inr req)
  have start: "r = send_request env hp None (Some req)
              \<lparr>calls = request_calls env inp hp, handled = [], out_after = out, hstate = s,
                 ending = Returned\<rparr>"
    using Inr unfolding r DoHTTPWithHandler_def new_request_def call_def MethodGet_def
      Let_def built_request_def request_body_def request_calls_def
    by (cases "Marshal env inp") auto
  note stage = send_request_def read_response_def check_status_def unmarshal_out_def
    call_def invoke_def StatusOK_def Let_def
  have reached: thesis
    if d: "Do env (set_headers env hp req) = DoOK resp
           \<or> (\<exists>e. Do env (set_headers env hp req) = DoErr e (Some resp))" for resp
  proof -
    obtain body rerr where b: "Body resp = (body, rerr)" by (cases "Body resp")
    obtain out' uerr where u: "Unmarshal env body out = (out', uerr)"
      by (cases "Unmarshal env body out")
    have "r = \<lparr>calls = request_calls env inp hp
                      @ [CallDo (set_headers env hp req), CallReadAll, CallUnmarshal body,
                         CallClose],
            handled = [], out_after = out', hstate = s, ending = Returned\<rparr>"
    proof -
      have s2: "send_request env hp None (Some req) r0 =
              read_response env None (Some resp) (call (CallDo (set_headers env hp req)) r0)" for r0
        using d unfolding send_request_def Let_def by auto
      show ?thesis
        unfolding start s2 by (simp add: read_response_nil unmarshal_out_nil b call_def u)
    qed
    then show thesis by (rule decoded[OF Inr d b u])
  qed
  show thesis
  proof (cases "Do env (set_headers env hp req)")
    case (DoOK resp)
    then show thesis by (intro reached[of resp]) simp
  next
    case (DoErr e ro)
    show thesis
    proof (cases ro)
      case None
      have "r = \<lparr>calls = request_calls env inp hp @ [CallDo (set_headers env hp req)],
            handled = [], out_after = out, hstate = s, ending = PanicNilResponse\<rparr>"
        unfolding start by (simp add: stage DoErr None)
      then show thesis using nil_response[OF Inr] DoErr None by simp
    next
      case (Some resp)
      with DoErr show thesis by (intro reached[of resp]) simp
    qed
  qed
qed

lemmas stub_defs = stub_def hp_get_def hp_post_def req_get_def counting_def set_headers_def
  Header_Set_def truncate200_def fmt_d_def

lemma request_calls_GET:
  "Method hp = ''GET'' \<Longrightarrow>
   request_calls env inp hp = [CallNewRequest ''GET'' (InternalServer env @ Path hp) None]"
  by (simp add: request_calls_def request_body_def)

lemma request_calls_other:
  "Method hp \<noteq> ''GET'' \<Longrightarrow>
   request_calls env inp hp =
     [CallMarshal inp,
      CallNewRequest (Method hp) (InternalServer env @ Path hp)
        (Some (case Marshal env inp of Inr b \<Rightarrow> b | Inl e \<Rightarrow> []))]"
  by (simp add: request_calls_def request_body_def)

text \<open>
  The calls of an attempt. Either the encoder failed and the handler ended the attempt
  there, or the calls start with the calls up to the request; after these there is no
  other call of the encoder or of \<open>http.NewRequest\<close>, and the request sent is the
  request that was built, with the headers set.
\<close>

lemma executor_calls:
  assumes "r = DoHTTPWithHandler env inp out hp handler s"
  shows "(\<exists>e h. handler = Some h \<and> Method hp \<noteq> ''GET'' \<and> Marshal env inp = Inl e
            \<and> r = \<lparr>calls = [CallMarshal inp],
                     handled = [(InParameterMarshalToJSONError, e)],
                     out_after = out, hstate = h InParameterMarshalToJSONError e s,
                     ending = Returned\<rparr>)
       \<or> ((Method hp = ''GET'' \<or> handler = None \<or> (\<exists>b. Marshal env inp = Inr b))
          \<and> (\<exists>rest. calls r = request_calls env inp hp @ rest
                \<and> (\<forall>v. CallMarshal v \<notin> set rest)
                \<and> (\<forall>m u b. CallNewRequest m u b \<notin> set rest)
                \<and> (\<forall>rq. CallDo rq \<in> set rest \<longrightarrow>
                      (\<exists>req. built_request env inp hp = Inr req
                             \<and> rq = set_headers env hp req))))"
proof (cases handler)
  case None
  with assms have "r = DoHTTPWithHandler env inp out hp None s" by simp
  then show ?thesis using None by (cases rule: executor_nil_cases) simp_all
next
  case (Some h)
  with assms have "r = DoHTTPWithHandler env inp out hp (Some h) s" by simp
  then show ?thesis using Some by (cases rule: executor_handler_cases) simp_all
qed

lemma unmarshal_out_Marshal_update:
  "unmarshal_out (env\<lparr>Marshal := f\<rparr>) handler body r = unmarshal_out env handler body r"
  by (simp add: unmarshal_out_def)

lemma check_status_Marshal_update:
  "check_status (env\<lparr>Marshal := f\<rparr>) handler resp body r = check_status env handler resp body r"
  by (simp add: check_status_def unmarshal_out_Marshal_update split: bool.splits option.splits)

lemma read_response_Marshal_update:
  "read_response (env\<lparr>Marshal := f\<rparr>) handler ro r = read_response env handler ro r"
  by (simp add: read_response_def check_status_Marshal_update
      split: option.splits prod.splits)

lemma set_headers_Marshal_update:
  "set_headers (env\<lparr>Marshal := f\<rparr>) hp req = set_headers env hp req"
  by (simp add: set_headers_def Header_Set_def)

lemma send_request_Marshal_update:
  "send_request (env\<lparr>Marshal := f\<rparr>) hp handler ro r = send_request env hp handler ro r"
  by (simp add: send_request_def read_response_Marshal_update set_headers_Marshal_update Let_def
      split: option.splits do_result.splits)

lemma new_request_Marshal_update:
  "new_request (env\<lparr>Marshal := f\<rparr>) hp handler m u b r = new_request env hp handler m u b r"
  by (simp add: new_request_def send_request_Marshal_update split: sum.splits option.splits)

text \<open>
  Claim C7. When the method is GET the executor never calls the encoder, whatever the
  input value is and whatever the encoder would do with it; it builds the request with no
  body and sends that request. With every other method the first thing the executor does
  is to call the encoder on the input value, once. When the encoder fails and there is a
  handler, the handler gets the encoder's error in the category of the input
  serialization and no request is built. Otherwise the request is built next, with the
  bytes the encoder returned as its body (the empty body after a failure that a nil
  handler left unreported), and the request sent is that request.
\<close>

theorem DoHTTPWithHandler_serialization:
  assumes "r = DoHTTPWithHandler env inp out hp handler s"
  shows "(Method hp = ''GET'' \<longrightarrow>
            (\<forall>v. CallMarshal v \<notin> set (calls r))
            \<and> (\<exists>rest. calls r = CallNewRequest ''GET'' (InternalServer env @ Path hp) None # rest)
            \<and> (\<forall>m u b. CallNewRequest m u b \<in> set (calls r) \<longrightarrow>
                  m = ''GET'' \<and> u = InternalServer env @ Path hp \<and> b = None)
            \<and> (\<forall>rq. CallDo rq \<in> set (calls r) \<longrightarrow>
                  (\<exists>req. NewRequest env ''GET'' (InternalServer env @ Path hp) None = Inr req
                         \<and> rq = set_headers env hp req))
            \<and> (\<forall>f. DoHTTPWithHandler (env\<lparr>Marshal := f\<rparr>) inp out hp handler s = r))
       \<and> (Method hp \<noteq> ''GET'' \<longrightarrow>
            (\<exists>rest. calls r = CallMarshal inp # rest \<and> (\<forall>v. CallMarshal v \<notin> set rest))
            \<and> (\<forall>e h. Marshal env inp = Inl e \<and> handler = Some h \<longrightarrow>
                  r = \<lparr>calls = [CallMarshal inp],
                        handled = [(InParameterMarshalToJSONError, e)],
                        out_after = out, hstate = h InParameterMarshalToJSONError e s,
                        ending = Returned\<rparr>)
            \<and> (\<forall>b. Marshal env inp = Inr b \<longrightarrow>
                  (\<exists>rest. calls r = CallMarshal inp
                             # CallNewRequest (Method hp) (InternalServer env @ Path hp) (Some b)
                             # rest))
            \<and> (\<forall>e. Marshal env inp = Inl e \<and> handler = None \<longrightarrow>
                  (\<exists>rest. calls r = CallMarshal inp
                             # CallNewRequest (Method hp) (InternalServer env @ Path hp) (Some [])
                             # rest))
            \<and> (\<forall>m u b. CallNewRequest m u b \<in> set (calls r) \<longrightarrow>
                  m = Method hp \<and> u = InternalServer env @ Path hp
                  \<and> b = Some (case Marshal env inp of Inr x \<Rightarrow> x | Inl e \<Rightarrow> []))
            \<and> (\<forall>rq. CallDo rq \<in> set (calls r) \<longrightarrow>
                  (\<exists>req. NewRequest env (Method hp) (InternalServer env @ Path hp)
                            (Some (case Marshal env inp of Inr x \<Rightarrow> x | Inl e \<Rightarrow> [])) = Inr req
                         \<and> rq = set_headers env hp req)))"
proof (intro conjI impI)
  assume get: "Method hp = ''GET''"
  with executor_calls[OF assms] obtain rest where
    rest: "calls r = CallNewRequest ''GET'' (InternalServer env @ Path hp) None # rest"
      "\<forall>v. CallMarshal v \<notin> set rest" "\<forall>m u b. CallNewRequest m u b \<notin> set rest"
      "\<forall>rq. CallDo rq \<in> set rest \<longrightarrow>
         (\<exists>req. built_request env inp hp = Inr req \<and> rq = set_headers env hp req)"
    by (auto simp: request_calls_GET)
  have built: "built_request env inp hp =
                 NewRequest env ''GET'' (InternalServer env @ Path hp) None"
    using get by (simp add: built_request_def request_body_def)
  show "\<forall>v. CallMarshal v \<notin> set (calls r)" using rest(1,2) by simp
  show "\<exists>rest. calls r = CallNewRequest ''GET'' (InternalServer env @ Path hp) None # rest"
    using rest(1) by simp
  show "\<forall>m u b. CallNewRequest m u b \<in> set (calls r) \<longrightarrow>
                  m = ''GET'' \<and> u = InternalServer env @ Path hp \<and> b = None"
    using rest(1,3) by auto
  show "\<forall>rq. CallDo rq \<in> set (calls r) \<longrightarrow>
          (\<exists>req. NewRequest env ''GET'' (InternalServer env @ Path hp) None = Inr req
                 \<and> rq = set_headers env hp req)"
    using rest(1,4) unfolding built by simp
  show "\<forall>f. DoHTTPWithHandler (env\<lparr>Marshal := f\<rparr>) inp out hp handler s = r"
    unfolding assms DoHTTPWithHandler_def using get
    by (simp add: MethodGet_def new_request_Marshal_update)
next
  assume other: "Method hp \<noteq> ''GET''"
  have built: "built_request env inp hp =
                 NewRequest env (Method hp) (InternalServer env @ Path hp)
                   (Some (case Marshal env inp of Inr x \<Rightarrow> x | Inl e \<Rightarrow> []))"
    using other by (simp add: built_request_def request_body_def)
  from executor_calls[OF assms] consider
    (reported) e h where "handler = Some h" "Marshal env inp = Inl e"
      "r = \<lparr>calls = [CallMarshal inp], handled = [(InParameterMarshalToJSONError, e)],
            out_after = out, hstate = h InParameterMarshalToJSONError e s,
            ending = Returned\<rparr>"
  | (built) rest where "handler = None \<or> (\<exists>b. Marshal env inp = Inr b)"
      "calls r = CallMarshal inp
                 # CallNewRequest (Method hp) (InternalServer env @ Path hp)
                     (Some (case Marshal env inp of Inr x \<Rightarrow> x | Inl e \<Rightarrow> []))
                 # rest"
      "\<forall>v. CallMarshal v \<notin> set rest" "\<forall>m u b. CallNewRequest m u b \<notin> set rest"
      "\<forall>rq. CallDo rq \<in> set rest \<longrightarrow>
         (\<exists>req. built_request env inp hp = Inr req \<and> rq = set_headers env hp req)"
    using other by (auto simp: request_calls_other)
  then have all:
    "(\<exists>rest. calls r = CallMarshal inp # rest \<and> (\<forall>v. CallMarshal v \<notin> set rest))
     \<and> (\<forall>e h. Marshal env inp = Inl e \<and> handler = Some h \<longrightarrow>
           r = \<lparr>calls = [CallMarshal inp],
                 handled = [(InParameterMarshalToJSONError, e)],
                 out_after = out, hstate = h InParameterMarshalToJSONError e s,
                 ending = Returned\<rparr>)
     \<and> (\<forall>b. Marshal env inp = Inr b \<longrightarrow>
           (\<exists>rest. calls r = CallMarshal inp
                      # CallNewRequest (Method hp) (InternalServer env @ Path hp) (Some b)
                      # rest))
     \<and> (\<forall>e. Marshal env inp = Inl e \<and> handler = None \<longrightarrow>
           (\<exists>rest. calls r = CallMarshal inp
                      # CallNewRequest (Method hp) (InternalServer env @ Path hp) (Some [])
                      # rest))
     \<and> (\<forall>m u b. CallNewRequest m u b \<in> set (calls r) \<longrightarrow>
           m = Method hp \<and> u = InternalServer env @ Path hp
           \<and> b = Some (case Marshal env inp of Inr x \<Rightarrow> x | Inl e \<Rightarrow> []))
     \<and> (\<forall>rq. CallDo rq \<in> set (calls r) \<longrightarrow>
           (\<exists>req. NewRequest env (Method hp) (InternalServer env @ Path hp)
                     (Some (case Marshal env inp of Inr x \<Rightarrow> x | Inl e \<Rightarrow> [])) = Inr req
                  \<and> rq = set_headers env hp req))"
  proof cases
    case (reported e h)
    then show ?thesis by simp
  next
    case (built rest)
    from built(1) have no_report: "\<not> (\<exists>e h. Marshal env inp = Inl e \<and> handler = Some h)"
      by auto
    show ?thesis
      using no_report built(2-5) unfolding \<open>built_request env inp hp = _\<close>
      by auto
  qed
  show "\<exists>rest. calls r = CallMarshal inp # rest \<and> (\<forall>v. CallMarshal v \<notin> set rest)"
    using all by blast
  show "\<forall>e h. Marshal env inp = Inl e \<and> handler = Some h \<longrightarrow>
           r = \<lparr>calls = [CallMarshal inp],
                 handled = [(InParameterMarshalToJSONError, e)],
                 out_after = out, hstate = h InParameterMarshalToJSONError e s,
                 ending = Returned\<rparr>"
    using all by blast
  show "\<forall>b. Marshal env inp = Inr b \<longrightarrow>
           (\<exists>rest. calls r = CallMarshal inp
                      # CallNewRequest (Method hp) (InternalServer env @ Path hp) (Some b)
                      # rest)"
    using all by blast
  show "\<forall>e. Marshal env inp = Inl e \<and> handler = None \<longrightarrow>
           (\<exists>rest. calls r = CallMarshal inp
                      # CallNewRequest (Method hp) (InternalServer env @ Path hp) (Some [])
                      # rest)"
    using all by blast
  show "\<forall>m u b. CallNewRequest m u b \<in> set (calls r) \<longrightarrow>
           m = Method hp \<and> u = InternalServer env @ Path hp
           \<and> b = Some (case Marshal env inp of Inr x \<Rightarrow> x | Inl e \<Rightarrow> [])"
    using all by blast
  show "\<forall>rq. CallDo rq \<in> set (calls r) \<longrightarrow>
           (\<exists>req. NewRequest env (Method hp) (InternalServer env @ Path hp)
                     (Some (case Marshal env inp of Inr x \<Rightarrow> x | Inl e \<Rightarrow> [])) = Inr req
                  \<and> rq = set_headers env hp req)"
    using all by blast
qed

theorem DoHTTPWithHandler_serialization_witness:
  "(\<forall>v. CallMarshal v
          \<notin> set (calls (DoHTTPWithHandler (stub 200 ''ok'') ''in'' ''old'' hp_get None (0::nat))))
   \<and> (\<forall>f. DoHTTPWithHandler ((stub 200 ''ok'')\<lparr>Marshal := f\<rparr>) ''in'' ''old'' hp_get None (0::nat)
           = DoHTTPWithHandler (stub 200 ''ok'') ''in'' ''old'' hp_get None 0)
   \<and> (\<exists>rest. calls (DoHTTPWithHandler (stub 200 ''ok'') ''in'' ''old'' hp_post None (0::nat))
               = CallMarshal ''in''
                 # CallNewRequest ''POST'' ''http://127.0.0.1:80/x'' (Some ''in'') # rest)
   \<and> DoHTTPWithHandler ((stub 200 ''ok'')\<lparr>Marshal := (\<lambda>v. Inl ''unsupported type'')\<rparr>)
         ''in'' ''old'' hp_post (Some counting) (0::nat)
       = \<lparr>calls = [CallMarshal ''in''],
           handled = [(InParameterMarshalToJSONError, ''unsupported type'')],
           out_after = ''old'', hstate = 1, ending = Returned\<rparr>"
  using DoHTTPWithHandler_serialization
      [OF refl, where env = "stub 200 ''ok''" and inp = "''in''" and out = "''old''"
        and hp = hp_get and handler = None and s = "0::nat"]
    DoHTTPWithHandler_serialization
      [OF refl, where env = "stub 200 ''ok''" and inp = "''in''" and out = "''old''"
        and hp = hp_post and handler = None and s = "0::nat"]
    DoHTTPWithHandler_serialization
      [OF refl, where env = "(stub 200 ''ok'')\<lparr>Marshal := (\<lambda>v. Inl ''unsupported type'')\<rparr>"
        and inp = "''in''" and out = "''old''"
        and hp = hp_post and handler = "Some counting" and s = "0::nat"]
  by (simp add: hp_get_def hp_post_def stub_def counting_def)

text \<open>
  Claim C9. With a nil handler no check ends the attempt and nothing is reported. After
  a failed \<open>json.Marshal\<close> the request is still built, with an empty body. After a failed
  \<open>http.NewRequest\<close> the headers are set on the nil request: a nil pointer panic. After
  a failed \<open>Do\<close> the body is read from the response, a nil pointer panic when there is
  none. Once there is a response, whatever its status code and whether or not the read of
  the body failed, the body is decoded into the output location.
\<close>

theorem DoHTTPWithHandler_nil_handler:
  assumes "r = DoHTTPWithHandler env inp out hp None s"
  shows "handled r = [] \<and> hstate r = s
       \<and> (Method hp \<noteq> ''GET'' \<and> isl (Marshal env inp) \<longrightarrow>
            take 2 (calls r) =
              [CallMarshal inp, CallNewRequest (Method hp) (InternalServer env @ Path hp) (Some [])])
       \<and> (isl (built_request env inp hp) \<longrightarrow>
            ending r = PanicNilRequest \<and> calls r = request_calls env inp hp)
       \<and> (\<forall>req e. built_request env inp hp = Inr req
                   \<and> Do env (set_headers env hp req) = DoErr e None \<longrightarrow>
            ending r = PanicNilResponse)
       \<and> (\<forall>req resp body rerr.
            built_request env inp hp = Inr req
            \<and> (Do env (set_headers env hp req) = DoOK resp
                 \<or> (\<exists>e. Do env (set_headers env hp req) = DoErr e (Some resp)))
            \<and> Body resp = (body, rerr) \<longrightarrow>
            CallUnmarshal body \<in> set (calls r)
            \<and> out_after r = fst (Unmarshal env body out)
            \<and> ending r = Returned)"
  using assms
proof (cases rule: executor_nil_cases)
  case (nil_request e)
  then show ?thesis
    by (auto simp: request_calls_def request_body_def isl_def)
next
  case (nil_response req e)
  then show ?thesis
    by (auto simp: request_calls_def request_body_def isl_def)
next
  case (decoded req resp body rerr out' uerr)
  then show ?thesis
    by (auto simp: request_calls_def request_body_def isl_def)
qed

theorem DoHTTPWithHandler_nil_handler_witness:
  "handled (DoHTTPWithHandler (stub 500 ''down'') ''in'' ''old'' hp_get None (0::nat)) = []
   \<and> CallUnmarshal ''down''
        \<in> set (calls (DoHTTPWithHandler (stub 500 ''down'') ''in'' ''old'' hp_get None (0::nat)))
   \<and> out_after (DoHTTPWithHandler (stub 500 ''down'') ''in'' ''old'' hp_get None (0::nat)) = ''down''
   \<and> ending (DoHTTPWithHandler
               ((stub 500 ''down'')\<lparr>NewRequest := (\<lambda>m u b. Inl ''parse error'')\<rparr>)
               ''in'' ''old'' hp_get None (0::nat)) = PanicNilRequest
   \<and> ending (DoHTTPWithHandler
               ((stub 500 ''down'')\<lparr>Do := (\<lambda>rq. DoErr ''connection refused'' None)\<rparr>)
               ''in'' ''old'' hp_get None (0::nat)) = PanicNilResponse
   \<and> take 2 (calls (DoHTTPWithHandler
               ((stub 500 ''down'')\<lparr>Marshal := (\<lambda>v. Inl ''unsupported type'')\<rparr>)
               ''in'' ''old'' hp_post None (0::nat))) =
       [CallMarshal ''in'', CallNewRequest ''POST'' ''http://127.0.0.1:80/x'' (Some [])]"
  using DoHTTPWithHandler_nil_handler
      [OF refl, where env = "stub 500 ''down''" and inp = "''in''" and out = "''old''"
        and hp = hp_get and s = "0::nat"]
    DoHTTPWithHandler_nil_handler
      [OF refl, where env = "(stub 500 ''down'')\<lparr>NewRequest := (\<lambda>m u b. Inl ''parse error'')\<rparr>"
        and inp = "''in''" and out = "''old''" and hp = hp_get and s = "0::nat"]
    DoHTTPWithHandler_nil_handler
      [OF refl, where env = "(stub 500 ''down'')\<lparr>Do := (\<lambda>rq. DoErr ''connection refused'' None)\<rparr>"
        and inp = "''in''" and out = "''old''" and hp = hp_get and s = "0::nat"]
    DoHTTPWithHandler_nil_handler
      [OF refl, where env = "(stub 500 ''down'')\<lparr>Marshal := (\<lambda>v. Inl ''unsupported type'')\<rparr>"
        and inp = "''in''" and out = "''old''" and hp = hp_post and s = "0::nat"]
  by (simp add: built_request_def request_body_def stub_defs)

text \<open>
  Claim C8, as stated: for every response with a status other than success the callback
  receives the category of the status code and the body is not decoded. It fails. With a
  nil handler a response with status 500 is reported to nobody and its body is decoded
  into the output location; with a handler, a response with status 500 whose body cannot
  be read is reported as a read failure.
\<close>

theorem DoHTTPWithHandler_bad_status_counterexample:
  "handled (DoHTTPWithHandler (stub 500 ''down'') ''in'' ''old'' hp_get None (0::nat)) = []
   \<and> out_after (DoHTTPWithHandler (stub 500 ''down'') ''in'' ''old'' hp_get None (0::nat)) = ''down''
   \<and> handled (DoHTTPWithHandler
        ((stub 500 ''down'')\<lparr>Do := (\<lambda>rq. DoOK \<lparr>StatusCode = 500,
                                                  Body = (''oo'', Some ''unexpected EOF'')\<rparr>)\<rparr>)
        ''in'' ''old'' hp_get (Some counting) (0::nat)) = [(IOError, ''unexpected EOF'')]"
  by (simp add: exec_defs stub_defs)

text \<open>
  Claim C8, amended. With a handler, when the request was built and sent, the body of
  the response was read without error and the status code is not 200, the handler is
  invoked once, with the category of the status code and the text \<open>code: \<close>, the status
  code, \<open>, message: \<close> and the first 200 bytes of the body; the attempt then returns
  without a call of the decoder and with the output location unchanged.
\<close>

theorem DoHTTPWithHandler_bad_status:
  assumes "r = DoHTTPWithHandler env inp out hp (Some h) s"
    and "Method hp = ''GET'' \<or> (\<exists>b. Marshal env inp = Inr b)"
    and "built_request env inp hp = Inr req"
    and "Do env (set_headers env hp req) = DoOK resp"
    and "Body resp = (body, None)"
    and "StatusCode resp \<noteq> 200"
  shows "handled r = [(ResponseStatusCodeNotOK,
                       ''code: '' @ fmt_d (StatusCode resp) @ '', message: '' @ take 200 body)]
       \<and> hstate r = h ResponseStatusCodeNotOK
                       (''code: '' @ fmt_d (StatusCode resp) @ '', message: '' @ take 200 body) s
       \<and> (\<forall>b. CallUnmarshal b \<notin> set (calls r))
       \<and> out_after r = out
       \<and> ending r = Returned"
  using assms(1)
proof (cases rule: executor_handler_cases)
  case (bad_status req' resp' body')
  with assms have "req' = req" "resp' = resp" "body' = body" by simp_all
  with bad_status show ?thesis
    by (auto simp: request_calls_def)
qed (use assms in simp_all)

theorem DoHTTPWithHandler_bad_status_witness:
  "handled (DoHTTPWithHandler (stub 404 ''not found'') ''in'' ''old'' hp_get (Some counting) (0::nat))
     = [(ResponseStatusCodeNotOK, ''code: 404, message: not found'')]
   \<and> hstate (DoHTTPWithHandler (stub 404 ''not found'') ''in'' ''old'' hp_get (Some counting) (0::nat)) = 1
   \<and> out_after (DoHTTPWithHandler (stub 404 ''not found'') ''in'' ''old'' hp_get (Some counting) (0::nat))
     = ''old''"
  using DoHTTPWithHandler_bad_status
      [OF refl, where env = "stub 404 ''not found''" and inp = "''in''" and out = "''old''"
        and hp = hp_get and h = counting and s = "0::nat"
        and req = "\<lparr>req_method = ''GET'', req_url = ''http://127.0.0.1:80/x'', req_body = None,
                     req_header = []\<rparr>"
        and resp = "\<lparr>StatusCode = 404, Body = (''not found'', None)\<rparr>"
        and body = "''not found''"]
  by (simp add: built_request_def request_body_def stub_defs)

text \<open>
  Claim C4, as stated: in every execution the callback is invoked exactly once on a
  failing attempt. It fails for a nil handler: the attempt below fails on the status code
  500 and nothing is invoked.
\<close>

theorem DoHTTPWithHandler_handler_calls_counterexample:
  "first_failure (stub 500 ''down'') ''in'' ''old'' hp_get = Some ResponseStatusCodeNotOK
   \<and> length (handled (DoHTTPWithHandler (stub 500 ''down'') ''in'' ''old'' hp_get None (0::nat))) = 0"
  by (simp add: exec_defs first_failure_def stub_defs)

text \<open>
  Claim C4, amended. With a handler, the handler is invoked exactly once when a step of
  the attempt fails, with the category of the first step that fails, and not at all when
  every step succeeds; the attempt returns. With a nil handler nothing is invoked. In
  every execution there is at most one invocation.
\<close>

theorem DoHTTPWithHandler_handler_calls:
  assumes "r = DoHTTPWithHandler env inp out hp handler s"
  shows "(\<forall>h. handler = Some h \<longrightarrow>
            map fst (handled r) =
              (case first_failure env inp out hp of None \<Rightarrow> [] | Some et \<Rightarrow> [et])
            \<and> ending r = Returned)
       \<and> (handler = None \<longrightarrow> handled r = [])
       \<and> length (handled r) \<le> 1"
proof (cases handler)
  case None
  with assms have "r = DoHTTPWithHandler env inp out hp None s" by simp
  then have "handled r = []" by (cases rule: executor_nil_cases) simp_all
  with None show ?thesis by simp
next
  case (Some h)
  with assms have "r = DoHTTPWithHandler env inp out hp (Some h) s" by simp
  then have "map fst (handled r) =
               (case first_failure env inp out hp of None \<Rightarrow> [] | Some et \<Rightarrow> [et])
             \<and> ending r = Returned \<and> length (handled r) \<le> 1"
    by (cases rule: executor_handler_cases)
       (auto simp: first_failure_def built_request_def request_body_def)
  with Some show ?thesis by simp
qed

theorem DoHTTPWithHandler_handler_calls_witness:
  "map fst (handled (DoHTTPWithHandler (stub 500 ''down'') ''in'' ''old'' hp_post (Some counting)
                       (0::nat))) = [ResponseStatusCodeNotOK]
   \<and> map fst (handled (DoHTTPWithHandler (stub 200 ''ok'') ''in'' ''old'' hp_post (Some counting)
                       (0::nat))) = []
   \<and> handled (DoHTTPWithHandler (stub 200 '''') ''in'' ''old'' hp_post None (0::nat)) = []"
  using DoHTTPWithHandler_handler_calls
      [OF refl, where env = "stub 500 ''down''" and inp = "''in''" and out = "''old''"
        and hp = hp_post and handler = "Some counting" and s = "0::nat"]
    DoHTTPWithHandler_handler_calls
      [OF refl, where env = "stub 200 ''ok''" and inp = "''in''" and out = "''old''"
        and hp = hp_post and handler = "Some counting" and s = "0::nat"]
    DoHTTPWithHandler_handler_calls
      [OF refl, where env = "stub 200 ''''" and inp = "''in''" and out = "''old''"
        and hp = hp_post and handler = None and s = "0::nat"]
  by (simp add: first_failure_def stub_defs)

text \<open>
  Claim C5, as stated: on every failing attempt, a failure of the decoding included, the
  output location is left unchanged. It fails. With a nil handler the body of a response
  with status 503 is decoded into the output location. With a handler, a decoder that has
  written a part of the value when it fails leaves that part there.
\<close>

theorem DoHTTPWithHandler_output_counterexample:
  "first_failure (stub 503 ''busy'') ''in'' ''old'' hp_post = Some ResponseStatusCodeNotOK
   \<and> out_after (DoHTTPWithHandler (stub 503 ''busy'') ''in'' ''old'' hp_post None (0::nat)) = ''busy''
   \<and> handled (DoHTTPWithHandler
        ((stub 200 ''{}'')\<lparr>Unmarshal := (\<lambda>b out. (''partly decoded'', Some ''type mismatch''))\<rparr>)
        ''in'' ''old'' hp_post (Some counting) (0::nat))
       = [(OutParameterRunMarshalFromJSONError, ''type mismatch, body:{}'')]
   \<and> out_after (DoHTTPWithHandler
        ((stub 200 ''{}'')\<lparr>Unmarshal := (\<lambda>b out. (''partly decoded'', Some ''type mismatch''))\<rparr>)
        ''in'' ''old'' hp_post (Some counting) (0::nat)) = ''partly decoded''"
  by (simp add: exec_defs first_failure_def stub_defs)

text \<open>
  Claim C5, amended. With a handler, the output location is written by the decoder
  only, and the decoder is called only when every step before it succeeded and the
  status code is 200. So a failure of an earlier step (encoding, request, send, read,
  status code) leaves the output location unchanged; after a failure of the decoding it
  holds what the decoder left in it, which is the old value when the decoder writes
  nothing on failure.
\<close>

theorem DoHTTPWithHandler_output:
  assumes "r = DoHTTPWithHandler env inp out hp (Some h) s"
  shows "(\<forall>et. first_failure env inp out hp = Some et
              \<and> et \<noteq> OutParameterRunMarshalFromJSONError \<longrightarrow>
            out_after r = out \<and> (\<forall>b. CallUnmarshal b \<notin> set (calls r)))
       \<and> (first_failure env inp out hp = None
            \<or> first_failure env inp out hp = Some OutParameterRunMarshalFromJSONError \<longrightarrow>
            (\<exists>b. CallUnmarshal b \<in> set (calls r) \<and> out_after r = fst (Unmarshal env b out)))
       \<and> ((\<forall>b. snd (Unmarshal env b out) \<noteq> None \<longrightarrow> fst (Unmarshal env b out) = out)
            \<and> first_failure env inp out hp \<noteq> None \<longrightarrow>
            out_after r = out)"
  using assms
proof (cases rule: executor_handler_cases)
  case (marshal_failed e)
  then show ?thesis by (auto simp: first_failure_def)
next
  case (request_failed e)
  then show ?thesis
    by (auto simp: first_failure_def built_request_def request_body_def request_calls_def)
next
  case (send_failed req e ro)
  then show ?thesis
    by (auto simp: first_failure_def built_request_def request_body_def request_calls_def)
next
  case (read_failed req resp body e)
  then show ?thesis
    by (auto simp: first_failure_def built_request_def request_body_def request_calls_def)
next
  case (bad_status req resp body)
  then show ?thesis
    by (auto simp: first_failure_def built_request_def request_body_def request_calls_def)
next
  case (decode_failed req resp body out' e)
  have "snd (Unmarshal env body out) \<noteq> None" "fst (Unmarshal env body out) = out'"
    using decode_failed(6) by simp_all
  moreover have "first_failure env inp out hp = Some OutParameterRunMarshalFromJSONError"
    using decode_failed(1-6)
    by (auto simp: first_failure_def built_request_def request_body_def)
  moreover have "CallUnmarshal body \<in> set (calls r)" "out_after r = out'"
    using decode_failed(7) by simp_all
  ultimately show ?thesis
  proof (intro conjI allI impI, goal_cases)
    case (1 et)
    then show ?case by simp
  next
    case (2 et b)
    then show ?case by simp
  next
    case 3
    then show ?case by blast
  next
    case 4
    then have "fst (Unmarshal env body out) = out" by blast
    with 4 show ?case by simp
  qed
next
  case (succeeded req resp body out')
  have "fst (Unmarshal env body out) = out'"
    using succeeded(6) by simp
  moreover have "first_failure env inp out hp = None"
    using succeeded(1-6)
    by (auto simp: first_failure_def built_request_def request_body_def)
  moreover have "CallUnmarshal body \<in> set (calls r)" "out_after r = out'"
    using succeeded(7) by simp_all
  ultimately show ?thesis by auto
qed

theorem DoHTTPWithHandler_output_witness:
  "out_after (DoHTTPWithHandler (stub 503 ''busy'') ''in'' ''old'' hp_post (Some counting) (0::nat))
     = ''old''
   \<and> out_after (DoHTTPWithHandler (stub 200 '''') ''in'' ''old'' hp_post (Some counting) (0::nat))
     = ''old''
   \<and> (\<exists>b. out_after (DoHTTPWithHandler (stub 200 ''new'') ''in'' ''old'' hp_post (Some counting)
                        (0::nat)) = fst (Unmarshal (stub 200 ''new'') b ''old''))"
  using DoHTTPWithHandler_output
      [OF refl, where env = "stub 503 ''busy''" and inp = "''in''" and out = "''old''"
        and hp = hp_post and h = counting and s = "0::nat"]
    DoHTTPWithHandler_output
      [OF refl, where env = "stub 200 ''''" and inp = "''in''" and out = "''old''"
        and hp = hp_post and h = counting and s = "0::nat"]
    DoHTTPWithHandler_output
      [OF refl, where env = "stub 200 ''new''" and inp = "''in''" and out = "''old''"
        and hp = hp_post and h = counting and s = "0::nat"]
  by (auto simp: first_failure_def stub_defs)

section \<open>Properties of DoHTTP and DoHTTPWithRetry\<close>

declare retry_loop.simps [simp del]

lemma DoHTTP_handler_Some: "DoHTTP_handler hp et err e \<noteq> None"
  by (cases et) (simp_all add: DoHTTP_handler_def)

text \<open>DoHTTP always returns; its error is nil exactly when every step succeeded.\<close>

lemma DoHTTP_returns: "ending (DoHTTP env inp out hp) = Returned"
proof -
  define r where "r = DoHTTP env inp out hp"
  then have "r = DoHTTPWithHandler env inp out hp (Some (DoHTTP_handler hp)) None"
    by (simp add: DoHTTP_def)
  then have "ending r = Returned"
    by (cases rule: executor_handler_cases) simp_all
  then show ?thesis by (simp add: r_def)
qed

lemma DoHTTP_success:
  assumes "hstate (DoHTTP env inp out hp) = None"
  shows "\<exists>req resp body.
           built_request env inp hp = Inr req
           \<and> Do env (set_headers env hp req) = DoOK resp
           \<and> Body resp = (body, None)
           \<and> StatusCode resp = 200
           \<and> Unmarshal env body out = (out_after (DoHTTP env inp out hp), None)"
proof -
  define r where "r = DoHTTP env inp out hp"
  then have r: "r = DoHTTPWithHandler env inp out hp (Some (DoHTTP_handler hp)) None"
    by (simp add: DoHTTP_def)
  have none: "hstate r = None" using assms by (simp add: r_def)
  from r have "\<exists>req resp body.
           built_request env inp hp = Inr req
           \<and> Do env (set_headers env hp req) = DoOK resp
           \<and> Body resp = (body, None)
           \<and> StatusCode resp = 200
           \<and> Unmarshal env body out = (out_after r, None)"
  proof (cases rule: executor_handler_cases)
    case (succeeded req resp body out')
    then show ?thesis by auto
  qed (use none DoHTTP_handler_Some in auto)
  then show ?thesis by (simp add: r_def)
qed

text \<open>One round of the loop.\<close>

lemma retry_loop_fail:
  assumes "i < maxRetryTimes"
    and "hstate (DoHTTP (world (r_attempts st)) inp (r_out st) hp) = Some e"
  shows "retry_loop world inp hp waitTime maxRetryTimes i err st =
         retry_loop world inp hp waitTime maxRetryTimes (i + 1) (Some e)
           (st\<lparr>r_out := out_after (DoHTTP (world (r_attempts st)) inp (r_out st) hp),
               r_attempts := Suc (r_attempts st),
               r_sleeps := r_sleeps st @ [waitTime]\<rparr>)"
  by (subst retry_loop.simps) (simp add: assms DoHTTP_returns Let_def)

lemma retry_loop_ok:
  assumes "i < maxRetryTimes"
    and "hstate (DoHTTP (world (r_attempts st)) inp (r_out st) hp) = None"
  shows "retry_loop world inp hp waitTime maxRetryTimes i err st =
         st\<lparr>r_out := out_after (DoHTTP (world (r_attempts st)) inp (r_out st) hp),
            r_attempts := Suc (r_attempts st), r_ending := Returned, r_err := None\<rparr>"
  by (subst retry_loop.simps) (simp add: assms DoHTTP_returns Let_def)

lemma retry_loop_end:
  assumes "\<not> i < maxRetryTimes"
  shows "retry_loop world inp hp waitTime maxRetryTimes i err st =
         (case err of
            None \<Rightarrow> st\<lparr>r_ending := PanicNilError\<rparr>
          | Some e \<Rightarrow>
              st\<lparr>r_ending := Returned,
                 r_err := Some (''request error, retry at maxtimes:'' @ fmt_d maxRetryTimes
                                @ '', path: '' @ Path hp @ '', err:'' @ e)\<rparr>)"
  by (subst retry_loop.simps) (simp add: assms)

text \<open>The loop from attempt number \<open>n\<close>, when attempt number \<open>k - 1\<close> is the first to succeed.\<close>

lemma retry_loop_succeeds:
  assumes "n < k" and "int k \<le> maxRetryTimes"
    and "\<forall>j. n \<le> j \<and> j < k - 1 \<longrightarrow> attempt_err world inp out hp j \<noteq> None"
    and "attempt_err world inp out hp (k - 1) = None"
  shows "retry_loop world inp hp waitTime maxRetryTimes (int n) err
           \<lparr>r_ending = Returned, r_err = None, r_out = out_before world inp out hp n,
             r_attempts = n, r_sleeps = replicate n waitTime\<rparr> =
         \<lparr>r_ending = Returned, r_err = None, r_out = out_before world inp out hp k,
           r_attempts = k, r_sleeps = replicate (k - 1) waitTime\<rparr>"
  using assms
proof (induction "k - 1 - n" arbitrary: n err)
  case 0
  from "0.hyps" "0.prems"(1) have k: "k = Suc n" by simp
  have lt: "int n < maxRetryTimes" using "0.prems"(1,2) by simp
  have ok: "hstate (DoHTTP (world n) inp (out_before world inp out hp n) hp) = None"
    using "0.prems"(4) unfolding k by (simp add: attempt_err_def)
  have "retry_loop world inp hp waitTime maxRetryTimes (int n) err
           \<lparr>r_ending = Returned, r_err = None, r_out = out_before world inp out hp n,
             r_attempts = n, r_sleeps = replicate n waitTime\<rparr> =
         \<lparr>r_ending = Returned, r_err = None, r_out = out_before world inp out hp (Suc n),
           r_attempts = Suc n, r_sleeps = replicate n waitTime\<rparr>"
    using retry_loop_ok[of "int n" maxRetryTimes world
        "\<lparr>r_ending = Returned, r_err = None, r_out = out_before world inp out hp n,
          r_attempts = n, r_sleeps = replicate n waitTime\<rparr>" inp hp waitTime err] lt ok
    by simp
  then show ?case unfolding k by simp
next
  case (Suc d)
  then have lt1: "n < k - 1" by simp
  have lt: "int n < maxRetryTimes" using Suc.prems(1,2) by simp
  from Suc.prems(3) lt1 obtain e where
    e: "hstate (DoHTTP (world n) inp (out_before world inp out hp n) hp) = Some e"
    by (auto simp: attempt_err_def)
  have step: "retry_loop world inp hp waitTime maxRetryTimes (int n) err
           \<lparr>r_ending = Returned, r_err = None, r_out = out_before world inp out hp n,
             r_attempts = n, r_sleeps = replicate n waitTime\<rparr> =
         retry_loop world inp hp waitTime maxRetryTimes (int (Suc n)) (Some e)
           \<lparr>r_ending = Returned, r_err = None, r_out = out_before world inp out hp (Suc n),
             r_attempts = Suc n, r_sleeps = replicate (Suc n) waitTime\<rparr>"
    using retry_loop_fail[of "int n" maxRetryTimes world
        "\<lparr>r_ending = Returned, r_err = None, r_out = out_before world inp out hp n,
          r_attempts = n, r_sleeps = replicate n waitTime\<rparr>" inp hp e waitTime err] lt e
    by (simp add: replicate_append_same add.commute)
  have "retry_loop world inp hp waitTime maxRetryTimes (int (Suc n)) (Some e)
           \<lparr>r_ending = Returned, r_err = None, r_out = out_before world inp out hp (Suc n),
             r_attempts = Suc n, r_sleeps = replicate (Suc n) waitTime\<rparr> =
         \<lparr>r_ending = Returned, r_err = None, r_out = out_before world inp out hp k,
           r_attempts = k, r_sleeps = replicate (k - 1) waitTime\<rparr>"
  proof (rule Suc.hyps(1))
    show "d = k - 1 - Suc n" using Suc.hyps(2) by simp
    show "Suc n < k" using lt1 by simp
    show "int k \<le> maxRetryTimes" by (rule Suc.prems(2))
    show "\<forall>j. Suc n \<le> j \<and> j < k - 1 \<longrightarrow> attempt_err world inp out hp j \<noteq> None"
      using Suc.prems(3) by simp
    show "attempt_err world inp out hp (k - 1) = None" by (rule Suc.prems(4))
  qed
  with step show ?case by simp
qed

text \<open>The loop from attempt number \<open>n\<close>, when every attempt up to the last one fails.\<close>

lemma retry_loop_exhausted:
  assumes "n \<le> m"
    and "\<forall>j. n \<le> j \<and> j < m \<longrightarrow> attempt_err world inp out hp j \<noteq> None"
  shows "retry_loop world inp hp waitTime (int m) (int n) err
           \<lparr>r_ending = Returned, r_err = None, r_out = out_before world inp out hp n,
             r_attempts = n, r_sleeps = replicate n waitTime\<rparr> =
         (case (if n < m then attempt_err world inp out hp (m - 1) else err) of
            None \<Rightarrow>
              \<lparr>r_ending = PanicNilError, r_err = None, r_out = out_before world inp out hp m,
                r_attempts = m, r_sleeps = replicate m waitTime\<rparr>
          | Some e \<Rightarrow>
              \<lparr>r_ending = Returned,
                r_err = Some (''request error, retry at maxtimes:'' @ fmt_d (int m)
                              @ '', path: '' @ Path hp @ '', err:'' @ e),
                r_out = out_before world inp out hp m,
                r_attempts = m, r_sleeps = replicate m waitTime\<rparr>)"
  using assms
proof (induction "m - n" arbitrary: n err)
  case 0
  then have "n = m" by simp
  then show ?case
    by (simp add: retry_loop_end split: option.splits)
next
  case (Suc d)
  then have lt: "n < m" by simp
  from Suc.prems(2) lt obtain e where
    e: "hstate (DoHTTP (world n) inp (out_before world inp out hp n) hp) = Some e"
    by (auto simp: attempt_err_def)
  have step: "retry_loop world inp hp waitTime (int m) (int n) err
           \<lparr>r_ending = Returned, r_err = None, r_out = out_before world inp out hp n,
             r_attempts = n, r_sleeps = replicate n waitTime\<rparr> =
         retry_loop world inp hp waitTime (int m) (int (Suc n)) (Some e)
           \<lparr>r_ending = Returned, r_err = None, r_out = out_before world inp out hp (Suc n),
             r_attempts = Suc n, r_sleeps = replicate (Suc n) waitTime\<rparr>"
    using retry_loop_fail[of "int n" "int m" world
        "\<lparr>r_ending = Returned, r_err = None, r_out = out_before world inp out hp n,
          r_attempts = n, r_sleeps = replicate n waitTime\<rparr>" inp hp e waitTime err] lt e
    by (simp add: replicate_append_same add.commute)
  have last: "Suc n = m \<Longrightarrow> attempt_err world inp out hp (m - 1) = Some e"
    using e by (auto simp: attempt_err_def)
  have "retry_loop world inp hp waitTime (int m) (int (Suc n)) (Some e)
           \<lparr>r_ending = Returned, r_err = None, r_out = out_before world inp out hp (Suc n),
             r_attempts = Suc n, r_sleeps = replicate (Suc n) waitTime\<rparr> =
         (case (if Suc n < m then attempt_err world inp out hp (m - 1) else Some e) of
            None \<Rightarrow>
              \<lparr>r_ending = PanicNilError, r_err = None, r_out = out_before world inp out hp m,
                r_attempts = m, r_sleeps = replicate m waitTime\<rparr>
          | Some e \<Rightarrow>
              \<lparr>r_ending = Returned,
                r_err = Some (''request error, retry at maxtimes:'' @ fmt_d (int m)
                              @ '', path: '' @ Path hp @ '', err:'' @ e),
                r_out = out_before world inp out hp m,
                r_attempts = m, r_sleeps = replicate m waitTime\<rparr>)"
  proof (rule Suc.hyps(1))
    show "d = m - Suc n" using Suc.hyps(2) by simp
    show "Suc n \<le> m" using lt by simp
    show "\<forall>j. Suc n \<le> j \<and> j < m \<longrightarrow> attempt_err world inp out hp j \<noteq> None"
      using Suc.prems(2) by simp
  qed
  moreover have "(if Suc n < m then attempt_err world inp out hp (m - 1) else Some e) =
                 attempt_err world inp out hp (m - 1)"
    using lt last by (cases "Suc n < m") auto
  ultimately show ?case using step lt by simp
qed

text \<open>With at least one round to run, or an error in hand, the loop ends by returning.\<close>

lemma retry_loop_returns:
  "i < maxRetryTimes \<or> err \<noteq> None \<Longrightarrow>
   r_ending (retry_loop world inp hp waitTime maxRetryTimes i err st) = Returned"
proof (induction world inp hp waitTime maxRetryTimes i err st rule: retry_loop.induct)
  case (1 world inp hp waitTime maxRetryTimes i err st)
  show ?case
  proof (cases "i < maxRetryTimes")
    case False
    with "1.prems" obtain e where "err = Some e" by auto
    with False show ?thesis by (simp add: retry_loop_end)
  next
    case True
    show ?thesis
    proof (cases "hstate (DoHTTP (world (r_attempts st)) inp (r_out st) hp)")
      case None
      with True show ?thesis by (simp add: retry_loop_ok)
    next
      case (Some e)
      have "r_ending (retry_loop world inp hp waitTime maxRetryTimes (i + 1)
              (hstate (DoHTTP (world (r_attempts st)) inp (r_out st) hp))
              (st\<lparr>r_out := out_after (DoHTTP (world (r_attempts st)) inp (r_out st) hp),
                  r_attempts := r_attempts st + 1,
                  r_sleeps := r_sleeps (st\<lparr>r_out := out_after (DoHTTP (world (r_attempts st)) inp (r_out st) hp),
                  r_attempts := r_attempts st + 1\<rparr>) @ [waitTime]\<rparr>)) = Returned"
        by (rule "1.IH"[OF True refl refl]) (simp_all add: DoHTTP_returns Some)
      then show ?thesis
        using True Some by (simp add: retry_loop_fail)
    qed
  qed
qed

lemma DoHTTP_stub_fail:
  "hstate (DoHTTP (stub 500 ''down'') inp out hp_get) =
     Some ''request(method:GET path:/x cluster:c host:h) get code is not ok: code: 500, message: down''"
  "out_after (DoHTTP (stub 500 ''down'') inp out hp_get) = out"
  by (simp_all add: DoHTTP_def exec_defs stub_defs DoHTTP_handler_def genErrorPrefix_def)

lemma DoHTTP_stub_ok:
  "hstate (DoHTTP (stub 200 ''new'') inp out hp_get) = None"
  "out_after (DoHTTP (stub 200 ''new'') inp out hp_get) = ''new''"
  by (simp_all add: DoHTTP_def exec_defs stub_defs DoHTTP_handler_def genErrorPrefix_def)

lemma attempt_err_world_fail:
  "attempt_err world_fail inp out hp_get j =
     Some ''request(method:GET path:/x cluster:c host:h) get code is not ok: code: 500, message: down''"
  by (simp add: attempt_err_def world_fail_def DoHTTP_stub_fail)

lemma attempt_err_world_third:
  "attempt_err world_third inp out hp_get j =
     (if j < 2 then Some ''request(method:GET path:/x cluster:c host:h) get code is not ok: code: 500, message: down''
      else None)"
  by (simp add: attempt_err_def world_third_def DoHTTP_stub_fail DoHTTP_stub_ok)

lemma out_before_world_third:
  "out_before world_third inp out hp_get j = (if j \<le> 2 then out else ''new'')"
proof (induction j)
  case 0
  show ?case by simp
next
  case (Suc j)
  then show ?case
    by (auto simp: world_third_def DoHTTP_stub_fail DoHTTP_stub_ok)
qed

text \<open>
  Claim C1, as stated: when every attempt fails, DoHTTPWithRetry with at most 3 attempts
  sleeps exactly 2 times. It fails: with a transport that always answers 500 there are 3
  attempts and 3 sleeps, one after each failed attempt, the last one included.
\<close>

theorem DoHTTPWithRetry_exhausted_counterexample:
  "r_attempts (DoHTTPWithRetry world_fail ''in'' ''old'' hp_get 5 3) = 3
   \<and> r_sleeps (DoHTTPWithRetry world_fail ''in'' ''old'' hp_get 5 3) = [5, 5, 5]
   \<and> length (r_sleeps (DoHTTPWithRetry world_fail ''in'' ''old'' hp_get 5 3)) \<noteq> 2"
proof -
  have "replicate 3 (5::int) = [5, 5, 5]" by (simp add: numeral_3_eq_3)
  then show ?thesis
    using retry_loop_exhausted [of 0 3 world_fail "''in''" "''old''" hp_get 5 None]
    by (simp add: DoHTTPWithRetry_def attempt_err_world_fail)
qed

text \<open>
  Claim C1, amended. When each of the three attempts fails, DoHTTPWithRetry with at most
  3 attempts makes exactly 3 attempts, sleeps exactly 3 times for the given delay, and
  returns the error \<open>request error, retry at maxtimes:3, path: \<close>, the path, \<open>, err:\<close>
  and the error of the third attempt: a text that contains \<open>3\<close> and the path, and of
  the errors of the attempts only the last.
\<close>

theorem DoHTTPWithRetry_exhausted:
  assumes "\<forall>j<3. attempt_err world inp out hp j \<noteq> None"
    and "R = DoHTTPWithRetry world inp out hp waitTime 3"
  shows "r_ending R = Returned
       \<and> r_attempts R = 3
       \<and> r_sleeps R = [waitTime, waitTime, waitTime]
       \<and> r_err R = Some (''request error, retry at maxtimes:3, path: '' @ Path hp @ '', err:''
                          @ the (attempt_err world inp out hp 2))
       \<and> (\<exists>text. r_err R = Some text \<and> sublist ''3'' text \<and> sublist (Path hp) text
                  \<and> suffix (the (attempt_err world inp out hp 2)) text)"
proof -
  from assms(1) obtain e where e: "attempt_err world inp out hp 2 = Some e"
    by fastforce
  have all: "\<forall>j. 0 \<le> j \<and> j < 3 \<longrightarrow> attempt_err world inp out hp j \<noteq> None"
    using assms(1) by simp
  have R: "R = \<lparr>r_ending = Returned,
                r_err = Some (''request error, retry at maxtimes:3, path: '' @ Path hp
                              @ '', err:'' @ e),
                r_out = out_before world inp out hp 3,
                r_attempts = 3, r_sleeps = [waitTime, waitTime, waitTime]\<rparr>"
  proof -
    have rep: "replicate 3 waitTime = [waitTime, waitTime, waitTime]"
      by (simp add: numeral_3_eq_3)
    have f3: "fmt_d 3 = ''3''" by (simp add: fmt_d_def)
    show ?thesis
      using retry_loop_exhausted [of 0 3 world inp out hp waitTime None, OF _ all] e
      by (simp add: assms(2) DoHTTPWithRetry_def rep f3)
  qed
  have "sublist ''3'' (''request error, retry at maxtimes:'' @ ''3'' @ ('', path: '' @ Path hp
                         @ '', err:'' @ e))"
    by (rule sublist_appendI)
  moreover have "sublist (Path hp) ((''request error, retry at maxtimes:3, path: '') @ Path hp
                         @ ('', err:'' @ e))"
    by (rule sublist_appendI)
  moreover have "suffix e ((''request error, retry at maxtimes:3, path: '' @ Path hp
                         @ '', err:'') @ e)"
    by (rule suffix_appendI) simp
  ultimately show ?thesis
    unfolding R by (simp add: e)
qed

theorem DoHTTPWithRetry_exhausted_witness:
  "r_ending (DoHTTPWithRetry world_fail ''in'' ''old'' hp_get 5 3) = Returned
   \<and> r_err (DoHTTPWithRetry world_fail ''in'' ''old'' hp_get 5 3) =
       Some ''request error, retry at maxtimes:3, path: /x, err:request(method:GET path:/x cluster:c host:h) get code is not ok: code: 500, message: down''"
  using DoHTTPWithRetry_exhausted
      [OF _ refl, where world = world_fail and inp = "''in''" and out = "''old''"
        and hp = hp_get and waitTime = 5]
  by (simp add: attempt_err_world_fail) (simp add: hp_get_def)

text \<open>
  Claim C6. When the first \<open>k - 1\<close> attempts fail and attempt \<open>k\<close> succeeds, with
  \<open>1 \<le> k \<le> maxRetryTimes\<close>, DoHTTPWithRetry returns nil after exactly \<open>k\<close> attempts and
  exactly \<open>k - 1\<close> sleeps of the given delay, and the output location holds what the
  decoder made of the body of the response to attempt \<open>k\<close>, a response with status 200.
\<close>

theorem DoHTTPWithRetry_succeeds:
  assumes "1 \<le> k" and "int k \<le> maxRetryTimes"
    and "\<forall>j<k - 1. attempt_err world inp out hp j \<noteq> None"
    and "attempt_err world inp out hp (k - 1) = None"
    and "R = DoHTTPWithRetry world inp out hp waitTime maxRetryTimes"
  shows "r_ending R = Returned \<and> r_err R = None
       \<and> r_attempts R = k
       \<and> r_sleeps R = replicate (k - 1) waitTime
       \<and> (\<exists>req resp body.
             built_request (world (k - 1)) inp hp = Inr req
             \<and> Do (world (k - 1)) (set_headers (world (k - 1)) hp req) = DoOK resp
             \<and> Body resp = (body, None) \<and> StatusCode resp = 200
             \<and> Unmarshal (world (k - 1)) body (out_before world inp out hp (k - 1))
                 = (r_out R, None))"
proof -
  have all: "\<forall>j. 0 \<le> j \<and> j < k - 1 \<longrightarrow> attempt_err world inp out hp j \<noteq> None"
    using assms(3) by simp
  have "0 < k" using assms(1) by simp
  then have R: "R = \<lparr>r_ending = Returned, r_err = None, r_out = out_before world inp out hp k,
                r_attempts = k, r_sleeps = replicate (k - 1) waitTime\<rparr>"
    using retry_loop_succeeds [of 0 k maxRetryTimes world inp out hp waitTime None,
        OF _ assms(2) all assms(4)]
    by (simp add: assms(5) DoHTTPWithRetry_def)
  from assms(1) have k: "k = Suc (k - 1)" by simp
  have out: "out_before world inp out hp k =
             out_after (DoHTTP (world (k - 1)) inp (out_before world inp out hp (k - 1)) hp)"
    by (subst k) simp
  have "\<exists>req resp body.
           built_request (world (k - 1)) inp hp = Inr req
           \<and> Do (world (k - 1)) (set_headers (world (k - 1)) hp req) = DoOK resp
           \<and> Body resp = (body, None) \<and> StatusCode resp = 200
           \<and> Unmarshal (world (k - 1)) body (out_before world inp out hp (k - 1))
               = (out_before world inp out hp k, None)"
    unfolding out
    by (rule DoHTTP_success) (use assms(4) in \<open>simp add: attempt_err_def\<close>)
  then show ?thesis unfolding R by simp
qed

theorem DoHTTPWithRetry_succeeds_witness:
  "DoHTTPWithRetry world_third ''in'' ''old'' hp_get 5 4 =
     \<lparr>r_ending = Returned, r_err = None, r_out = ''new'', r_attempts = 3, r_sleeps = [5, 5]\<rparr>"
proof -
  have "r_ending (DoHTTPWithRetry world_third ''in'' ''old'' hp_get 5 4) = Returned
      \<and> r_err (DoHTTPWithRetry world_third ''in'' ''old'' hp_get 5 4) = None
      \<and> r_attempts (DoHTTPWithRetry world_third ''in'' ''old'' hp_get 5 4) = 3
      \<and> r_sleeps (DoHTTPWithRetry world_third ''in'' ''old'' hp_get 5 4) = [5, 5]
      \<and> r_out (DoHTTPWithRetry world_third ''in'' ''old'' hp_get 5 4) = ''new''"
    using DoHTTPWithRetry_succeeds
      [OF _ _ _ _ refl, where k = 3 and world = world_third and inp = "''in''"
        and out = "''old''" and hp = hp_get and waitTime = 5 and maxRetryTimes = 4]
    by (simp add: attempt_err_world_third out_before_world_third numeral_2_eq_2)
       (auto simp: world_third_def stub_def)
  then show ?thesis by (cases "DoHTTPWithRetry world_third ''in'' ''old'' hp_get 5 4") simp
qed

text \<open>
  Claim C10. With \<open>maxRetryTimes \<le> 0\<close> DoHTTPWithRetry makes no attempt and no sleep, and
  panics when it formats the final error: \<open>err.Error()\<close> is called on the nil error.
  With \<open>maxRetryTimes \<ge> 1\<close> it returns.
\<close>

theorem DoHTTPWithRetry_precondition:
  "(maxRetryTimes \<le> 0 \<longrightarrow>
      DoHTTPWithRetry world inp out hp waitTime maxRetryTimes =
        \<lparr>r_ending = PanicNilError, r_err = None, r_out = out, r_attempts = 0, r_sleeps = []\<rparr>)
   \<and> (1 \<le> maxRetryTimes \<longrightarrow>
      r_ending (DoHTTPWithRetry world inp out hp waitTime maxRetryTimes) = Returned)"
proof (intro conjI impI)
  assume "maxRetryTimes \<le> 0"
  then have "\<not> 0 < maxRetryTimes" by simp
  then show "DoHTTPWithRetry world inp out hp waitTime maxRetryTimes =
        \<lparr>r_ending = PanicNilError, r_err = None, r_out = out, r_attempts = 0, r_sleeps = []\<rparr>"
    unfolding DoHTTPWithRetry_def by (simp add: retry_loop_end)
next
  assume "1 \<le> maxRetryTimes"
  then have "0 < maxRetryTimes \<or> (None :: error option) \<noteq> None" by simp
  then show "r_ending (DoHTTPWithRetry world inp out hp waitTime maxRetryTimes) = Returned"
    unfolding DoHTTPWithRetry_def by (rule retry_loop_returns)
qed

theorem DoHTTPWithRetry_precondition_witness:
  "DoHTTPWithRetry world_fail ''in'' ''old'' hp_get 5 0 =
     \<lparr>r_ending = PanicNilError, r_err = None, r_out = ''old'', r_attempts = 0, r_sleeps = []\<rparr>
   \<and> DoHTTPWithRetry world_fail ''in'' ''old'' hp_get 5 (- 1) =
     \<lparr>r_ending = PanicNilError, r_err = None, r_out = ''old'', r_attempts = 0, r_sleeps = []\<rparr>
   \<and> r_ending (DoHTTPWithRetry world_fail ''in'' ''old'' hp_get 5 1) = Returned"
  using DoHTTPWithRetry_precondition [of 0 world_fail "''in''" "''old''" hp_get 5]
    DoHTTPWithRetry_precondition [of "- 1" world_fail "''in''" "''old''" hp_get 5]
    DoHTTPWithRetry_precondition [of 1 world_fail "''in''" "''old''" hp_get 5]
  by simp

end
